theory Spec2Isabelle
  imports Main "HOL-Library.Sublist" "HOL-Library.Monad_Syntax"
begin

text \<open>
  FavouriteAnything is a plugin that adds a favourite action to the long-press menu of a
  chat message with an image or a video. The repository holds the plugin in more than
  one version. Where two files define a function of the same name, the definition taken
  from \<open>src/index.ts\<close> carries the suffix \<open>_i\<close> and the one taken from
  \<open>unnamed/part_000\<close> the suffix \<open>_p\<close>.
\<close>

section \<open>JavaScript values and the host's object store\<close>

text \<open>
  The plugin reads message objects handed over by the host application and mutates the
  host's action list in place, so the host's objects and arrays live in a store, addressed
  by references. Objects that the plugin itself builds with an object literal (media
  descriptors, the action item) are never mutated afterwards and are kept as immediate
  values \<open>Obj\<close>, their properties in insertion order. \<open>Fn name env\<close> is a function value
  created by the plugin: the closure \<open>name\<close> with the values it captured.

  Numbers are integers (widths and heights); NaN and fractions are not represented.
  Strings are lists of 8-bit characters.
\<close>

type_synonym addr = nat

datatype val =
    Undefined
  | Null
  | Bool bool
  | Num int
  | Str string
  | Ref addr
  | Obj "(string \<times> val) list"
  | Fn string "val list"

datatype cell = Object "(string \<times> val) list" | Array "val list"

type_synonym store = "addr \<Rightarrow> cell"

text \<open>
  A computation that may throw returns an option: \<open>None\<close> is a thrown \<open>TypeError\<close>
  (the only exception the modelled expressions can raise), \<open>Some v\<close> is normal completion.
\<close>

definition lookup :: "(string \<times> val) list \<Rightarrow> string \<Rightarrow> val" where
  "lookup ps k = (case map_of ps k of None \<Rightarrow> Undefined | Some v \<Rightarrow> v)"

text \<open>
  \<open>getp h v k\<close> is the property read \<open>v.k\<close>: it throws on \<open>undefined\<close> and \<open>null\<close>,
  reads the property table of an object, and yields \<open>undefined\<close> on arrays and primitives
  (none of the property names the plugin reads is an array, string, number or function
  built-in).
\<close>

fun getp :: "store \<Rightarrow> val \<Rightarrow> string \<Rightarrow> val option" where
  "getp h Undefined k = None"
| "getp h Null k = None"
| "getp h (Ref a) k = (case h a of Object ps \<Rightarrow> Some (lookup ps k) | Array xs \<Rightarrow> Some Undefined)"
| "getp h (Obj ps) k = Some (lookup ps k)"
| "getp h v k = Some Undefined"

text \<open>\<open>v?.k\<close>: optional chaining short-circuits to \<open>undefined\<close> on \<open>undefined\<close> and \<open>null\<close>.\<close>

definition getp_opt :: "store \<Rightarrow> val \<Rightarrow> string \<Rightarrow> val option" where
  "getp_opt h v k = (if v = Undefined \<or> v = Null then Some Undefined else getp h v k)"

fun truthy :: "val \<Rightarrow> bool" where
  "truthy Undefined = False"
| "truthy Null = False"
| "truthy (Bool b) = b"
| "truthy (Num n) = (n \<noteq> 0)"
| "truthy (Str s) = (s \<noteq> [])"
| "truthy v = True"

text \<open>\<open>a || b\<close> on values already evaluated (the operands read here have no effects).\<close>

definition lor :: "val \<Rightarrow> val \<Rightarrow> val" where
  "lor a b = (if truthy a then a else b)"

text \<open>\<open>Array.isArray(v)\<close>, and the elements a \<open>for ... of\<close> loop over \<open>v\<close> visits.\<close>

definition isArray :: "store \<Rightarrow> val \<Rightarrow> bool" where
  "isArray h v = (case v of Ref a \<Rightarrow> (case h a of Array xs \<Rightarrow> True | Object ps \<Rightarrow> False) | _ \<Rightarrow> False)"

definition elems :: "store \<Rightarrow> val \<Rightarrow> val list" where
  "elems h v = (case v of Ref a \<Rightarrow> (case h a of Array xs \<Rightarrow> xs | Object ps \<Rightarrow> []) | _ \<Rightarrow> [])"

text \<open>
  \<open>arr.push(item)\<close> on a value that \<open>Array.isArray\<close> accepted; arrays are taken to
  be extensible.
\<close>

definition push :: "store \<Rightarrow> val \<Rightarrow> val \<Rightarrow> store" where
  "push h arr item =
     (case arr of
        Ref a \<Rightarrow> (case h a of Array xs \<Rightarrow> h(a := Array (xs @ [item])) | Object ps \<Rightarrow> h)
      | _ \<Rightarrow> h)"

subsection \<open>String methods\<close>

text \<open>
  \<open>toLowerCase\<close> changes the ASCII capitals and leaves every other character as it is.
  The result is only ever tested for the ASCII prefixes \<open>image/\<close> and \<open>video/\<close>, and
  the lower-casing of characters outside ASCII does not change the outcome of that test.
  A method call on a value that is not a string throws (the value has no such method).
\<close>

definition lowerChar :: "char \<Rightarrow> char" where
  "lowerChar c =
     (let n = (of_char c :: nat) in if 65 \<le> n \<and> n \<le> 90 then char_of (n + 32) else c)"

definition toLowerCase :: "val \<Rightarrow> string option" where
  "toLowerCase v = (case v of Str s \<Rightarrow> Some (map lowerChar s) | _ \<Rightarrow> None)"

text \<open>\<open>v.split(";")[0]\<close>: the part of the string before its first semicolon.\<close>

definition split0 :: "val \<Rightarrow> string option" where
  "split0 v = (case v of Str s \<Rightarrow> Some (takeWhile (\<lambda>c. c \<noteq> CHR '';'') s) | _ \<Rightarrow> None)"

text \<open>\<open>s.startsWith(p)\<close> is \<^term>\<open>prefix p s\<close>.\<close>

section \<open>Media extraction, first-match version (\<open>extractMedia\<close> of \<open>unnamed/part_000\<close>)\<close>

text \<open>
  The body of the loop over \<open>message.attachments\<close>: \<open>Some (Some d)\<close> is \<open>return d\<close>,
  \<open>Some None\<close> goes on to the next element, \<open>None\<close> is a throw.
\<close>

definition attachmentStep_p :: "store \<Rightarrow> val \<Rightarrow> val option option" where
  "attachmentStep_p h att = do {
     c \<leftarrow> getp h att ''content_type'';
     ct \<leftarrow> split0 (lor c (Str []));
     if prefix ''image/'' ct \<or> prefix ''video/'' ct then do {
       url \<leftarrow> getp h att ''url'';
       proxy_url \<leftarrow> getp h att ''proxy_url'';
       width \<leftarrow> getp h att ''width'';
       height \<leftarrow> getp h att ''height'';
       Some (Some (Obj [
         (''url'', url),
         (''proxyURL'', lor proxy_url url),
         (''width'', lor width (Num 0)),
         (''height'', lor height (Num 0)),
         (''isVideo'', Bool (prefix ''video/'' ct))]))
     } else Some None
   }"

fun attachmentsLoop_p :: "store \<Rightarrow> val list \<Rightarrow> val option option" where
  "attachmentsLoop_p h [] = Some None"
| "attachmentsLoop_p h (att # rest) =
     (case attachmentStep_p h att of
        None \<Rightarrow> None
      | Some (Some d) \<Rightarrow> Some (Some d)
      | Some None \<Rightarrow> attachmentsLoop_p h rest)"

text \<open>The body of the loop over \<open>message.embeds\<close>, its three tests in the source's order.\<close>

definition embedStep_p :: "store \<Rightarrow> val \<Rightarrow> val option option" where
  "embedStep_p h emb = do {
     type \<leftarrow> getp h emb ''type'';
     video \<leftarrow> getp h emb ''video'';
     image \<leftarrow> getp h emb ''image'';
     eurl \<leftarrow> getp h emb ''url'';
     if type = Str ''gifv'' \<and> truthy video then do {
       vurl \<leftarrow> getp h video ''url'';
       vproxy \<leftarrow> getp h video ''proxy_url'';
       width \<leftarrow> getp h video ''width'';
       height \<leftarrow> getp h video ''height'';
       Some (Some (Obj [
         (''url'', lor eurl vurl),
         (''proxyURL'', lor (lor vproxy vurl) eurl),
         (''width'', lor width (Num 0)),
         (''height'', lor height (Num 0)),
         (''isVideo'', Bool True)]))
     } else if truthy video then do {
       vurl \<leftarrow> getp h video ''url'';
       vproxy \<leftarrow> getp h video ''proxy_url'';
       width \<leftarrow> getp h video ''width'';
       height \<leftarrow> getp h video ''height'';
       Some (Some (Obj [
         (''url'', vurl),
         (''proxyURL'', lor vproxy vurl),
         (''width'', lor width (Num 0)),
         (''height'', lor height (Num 0)),
         (''isVideo'', Bool True)]))
     } else if truthy image then do {
       iurl \<leftarrow> getp h image ''url'';
       iproxy \<leftarrow> getp h image ''proxy_url'';
       width \<leftarrow> getp h image ''width'';
       height \<leftarrow> getp h image ''height'';
       Some (Some (Obj [
         (''url'', iurl),
         (''proxyURL'', lor iproxy iurl),
         (''width'', lor width (Num 0)),
         (''height'', lor height (Num 0)),
         (''isVideo'', Bool False)]))
     } else Some None
   }"

fun embedsLoop_p :: "store \<Rightarrow> val list \<Rightarrow> val option option" where
  "embedsLoop_p h [] = Some None"
| "embedsLoop_p h (emb # rest) =
     (case embedStep_p h emb of
        None \<Rightarrow> None
      | Some (Some d) \<Rightarrow> Some (Some d)
      | Some None \<Rightarrow> embedsLoop_p h rest)"

text \<open>\<open>extractMedia(message)\<close>: the first descriptor found, or \<open>null\<close>.\<close>

definition extractMedia_p :: "store \<Rightarrow> val \<Rightarrow> val option" where
  "extractMedia_p h message =
     (if \<not> truthy message then Some Null
      else do {
        attachments \<leftarrow> getp h message ''attachments'';
        r \<leftarrow> (if isArray h attachments then attachmentsLoop_p h (elems h attachments)
              else Some None);
        case r of
          Some d \<Rightarrow> Some d
        | None \<Rightarrow> do {
            embeds \<leftarrow> getp h message ''embeds'';
            r' \<leftarrow> (if isArray h embeds then embedsLoop_p h (elems h embeds) else Some None);
            case r' of Some d \<Rightarrow> Some d | None \<Rightarrow> Some Null
          }
      })"

section \<open>Media extraction, list version (\<open>extractMedia\<close> of \<open>src/index.ts\<close>)\<close>

text \<open>The descriptors one attachment adds to \<open>media\<close>.\<close>

definition attachmentMedia_i :: "store \<Rightarrow> val \<Rightarrow> val list option" where
  "attachmentMedia_i h att = do {
     c1 \<leftarrow> getp h att ''content_type'';
     c2 \<leftarrow> getp h att ''contentType'';
     contentType \<leftarrow> toLowerCase (lor (lor c1 c2) (Str []));
     if prefix ''image/'' contentType then do {
       url \<leftarrow> getp h att ''url'';
       p1 \<leftarrow> getp h att ''proxy_url'';
       p2 \<leftarrow> getp h att ''proxyURL'';
       Some [Obj [(''url'', url), (''proxyUrl'', lor (lor p1 p2) url), (''isVideo'', Bool False)]]
     } else if prefix ''video/'' contentType then do {
       url \<leftarrow> getp h att ''url'';
       p1 \<leftarrow> getp h att ''proxy_url'';
       p2 \<leftarrow> getp h att ''proxyURL'';
       Some [Obj [(''url'', url), (''proxyUrl'', lor (lor p1 p2) url), (''isVideo'', Bool True)]]
     } else Some []
   }"

fun attachmentsLoop_i :: "store \<Rightarrow> val list \<Rightarrow> val list \<Rightarrow> val list option" where
  "attachmentsLoop_i h media [] = Some media"
| "attachmentsLoop_i h media (att # rest) = do {
     ds \<leftarrow> attachmentMedia_i h att;
     attachmentsLoop_i h (media @ ds) rest
   }"

text \<open>
  The descriptors one embed adds to \<open>media\<close>: three independent tests, in the source's
  order (gifv video, image, video of another type).
\<close>

definition embedMedia_i :: "store \<Rightarrow> val \<Rightarrow> val list option" where
  "embedMedia_i h emb = do {
     type \<leftarrow> getp h emb ''type'';
     video \<leftarrow> getp h emb ''video'';
     image \<leftarrow> getp h emb ''image'';
     eurl \<leftarrow> getp h emb ''url'';
     m1 \<leftarrow> (if type = Str ''gifv'' \<and> truthy video then do {
              vurl \<leftarrow> getp h video ''url'';
              vp1 \<leftarrow> getp h video ''proxy_url'';
              vp2 \<leftarrow> getp h video ''proxyURL'';
              Some [Obj [(''url'', lor eurl vurl), (''proxyUrl'', lor (lor vp1 vp2) vurl),
                         (''isVideo'', Bool True)]]
            } else Some []);
     m2 \<leftarrow> (if truthy image then do {
              iurl \<leftarrow> getp h image ''url'';
              ip1 \<leftarrow> getp h image ''proxy_url'';
              ip2 \<leftarrow> getp h image ''proxyURL'';
              Some [Obj [(''url'', iurl), (''proxyUrl'', lor (lor ip1 ip2) iurl),
                         (''isVideo'', Bool False)]]
            } else Some []);
     m3 \<leftarrow> (if truthy video \<and> type \<noteq> Str ''gifv'' then do {
              vurl \<leftarrow> getp h video ''url'';
              vp1 \<leftarrow> getp h video ''proxy_url'';
              vp2 \<leftarrow> getp h video ''proxyURL'';
              Some [Obj [(''url'', vurl), (''proxyUrl'', lor (lor vp1 vp2) vurl),
                         (''isVideo'', Bool True)]]
            } else Some []);
     Some (m1 @ m2 @ m3)
   }"

fun embedsLoop_i :: "store \<Rightarrow> val list \<Rightarrow> val list \<Rightarrow> val list option" where
  "embedsLoop_i h media [] = Some media"
| "embedsLoop_i h media (emb # rest) = do {
     ds \<leftarrow> embedMedia_i h emb;
     embedsLoop_i h (media @ ds) rest
   }"

definition extractMedia_i :: "store \<Rightarrow> val \<Rightarrow> val list option" where
  "extractMedia_i h message = do {
     attachments \<leftarrow> getp_opt h message ''attachments'';
     media \<leftarrow> (if isArray h attachments then attachmentsLoop_i h [] (elems h attachments)
               else Some []);
     embeds \<leftarrow> getp_opt h message ''embeds'';
     (if isArray h embeds then embedsLoop_i h media (elems h embeds) else Some media)
   }"

section \<open>The action-sheet hooks\<close>

text \<open>
  The label of the action item is a star followed by \<open>Favourite\<close>; the star (U+2B50)
  is written as its three UTF-8 bytes.
\<close>

definition favouriteLabel :: string where
  "favouriteLabel = [CHR 0xE2, CHR 0xAD, CHR 0x90] @ '' Favourite''"

text \<open>\<open>args[0]\<close> of the argument array the patcher hands to an after-hook.\<close>

definition arg0 :: "val list \<Rightarrow> val" where
  "arg0 args = (case args of [] \<Rightarrow> Undefined | a # _ \<Rightarrow> a)"

subsection \<open>\<open>afterActions\<close> of \<open>unnamed/part_000\<close>\<close>

text \<open>
  \<open>buildFavouriteAction(media)\<close>: the \<open>onPress\<close> closure captures \<open>media\<close>.
\<close>

definition buildFavouriteAction :: "val \<Rightarrow> val" where
  "buildFavouriteAction media =
     Obj [(''key'', Str ''favouriteAnything''),
          (''label'', Str favouriteLabel),
          (''onPress'', Fn ''onPress'' [media])]"

text \<open>
  The loop over \<open>ret.props.children\<close>: \<open>Some (Some h')\<close> when a child's option list was
  found and pushed to (the hook then returns), \<open>Some None\<close> when the loop ran out.
\<close>

fun childrenLoop :: "store \<Rightarrow> val \<Rightarrow> val list \<Rightarrow> store option option" where
  "childrenLoop h item [] = Some None"
| "childrenLoop h item (child # rest) = do {
     props \<leftarrow> (if truthy child then getp h child ''props'' else Some child);
     options \<leftarrow> (if truthy props then getp h props ''options'' else Some props);
     if truthy child \<and> truthy props \<and> isArray h options
     then Some (Some (push h options item))
     else childrenLoop h item rest
   }"

definition afterActions :: "store \<Rightarrow> val list \<Rightarrow> val \<Rightarrow> (store \<times> val) option" where
  "afterActions h args ret = do {
     m \<leftarrow> (if truthy (arg0 args) then getp h (arg0 args) ''message'' else Some (arg0 args));
     media \<leftarrow> extractMedia_p h (lor (lor m (arg0 args)) Null);
     if \<not> truthy media then Some (h, ret)
     else if isArray h ret then Some (push h ret (buildFavouriteAction media), ret)
     else do {
       props \<leftarrow> (if truthy ret then getp h ret ''props'' else Some ret);
       if truthy ret \<and> truthy props then do {
         options \<leftarrow> getp h props ''options'';
         if isArray h options then Some (push h options (buildFavouriteAction media), ret)
         else do {
           children \<leftarrow> getp h props ''children'';
           if isArray h children then do {
             r \<leftarrow> childrenLoop h (buildFavouriteAction media) (elems h children);
             case r of Some h' \<Rightarrow> Some (h', ret) | None \<Rightarrow> Some (h, ret)
           } else Some (h, ret)
         }
       } else Some (h, ret)
     }
   }"

subsection \<open>The after-hook installed by \<open>onEnable\<close> of \<open>src/index.ts\<close>\<close>

text \<open>
  The hook is an anonymous function in the source; it is called \<open>afterMessageActions\<close>
  here. Its \<open>onPress\<close> closure captures the whole list \<open>media\<close> and passes it to
  \<open>favouriteMedia\<close>.
\<close>

definition favouriteAction :: "val list \<Rightarrow> val" where
  "favouriteAction media =
     Obj [(''label'', Str favouriteLabel), (''onPress'', Fn ''favouriteMedia'' media)]"

definition afterMessageActions :: "store \<Rightarrow> val list \<Rightarrow> val \<Rightarrow> (store \<times> val) option" where
  "afterMessageActions h args result = do {
     media \<leftarrow> extractMedia_i h (arg0 args);
     if length media = 0 then Some (h, result)
     else if isArray h result then Some (push h result (favouriteAction media), result)
     else do {
       items \<leftarrow> (if truthy result then getp h result ''items'' else Some result);
       if truthy result \<and> isArray h items
       then Some (push h items (favouriteAction media), result)
       else do {
         actions \<leftarrow> (if truthy result then getp h result ''actions'' else Some result);
         if truthy result \<and> isArray h actions
         then Some (push h actions (favouriteAction media), result)
         else Some (h, result)
       }
     }
   }"

section \<open>The favourite handlers\<close>


text \<open>
  What a module lookup does: it throws when nothing matches, it may return a nullish
  value, or it returns the module. The module is described by the one function the
  handlers want from it: \<open>Some b\<close> when that property is a function which behaves as
  \<open>b\<close> when called, \<open>None\<close> when it is not.
\<close>

datatype 'a found = LookupThrows | LookupNull | Found 'a













text \<open>
  A property of a media descriptor. The handlers only ever receive descriptors built by
  the extractors, which are object literals.
\<close>

definition field :: "val \<Rightarrow> string \<Rightarrow> val" where
  "field d k = (case d of Obj ps \<Rightarrow> lookup ps k | _ \<Rightarrow> Undefined)"

subsection \<open>\<open>favouriteMedia\<close> of \<open>src/index.ts\<close>\<close>




subsection \<open>The \<open>onPress\<close> closure of \<open>buildFavouriteAction\<close> in \<open>unnamed/part_000\<close>\<close>




section \<open>Plugin lifecycle (\<open>onEnable\<close> and \<open>onDisable\<close>)\<close>

text \<open>
  The patcher belongs to the modding runtime, not to this repository. What the plugin
  relies on is taken from the specification's data model: installing a patch yields one
  unpatch handle, "an opaque no-argument callable that reverses one patch". Handles are
  numbered in the order of their creation. Two parameters describe what a handle does
  when it is invoked: \<open>reverses fn\<close> says whether it removes its patch, \<open>fails fn\<close>
  whether it throws.

  \<open>cleanups\<close> is the plugin's module-level list; \<open>installed\<close> are the patches in place;
  \<open>invoked\<close> lists every invocation of a handle so far.
\<close>

record runtime =
  cleanups :: "nat list"
  installed :: "nat list"
  invoked :: "nat list"
  counter :: nat

definition initial :: runtime where
  "initial = \<lparr>cleanups = [], installed = [], invoked = [], counter = 0\<rparr>"

definition patcher_after :: "runtime \<Rightarrow> runtime \<times> nat" where
  "patcher_after w =
     (w\<lparr>installed := installed w @ [counter w], counter := Suc (counter w)\<rparr>, counter w)"

definition invokeHandle ::
  "(nat \<Rightarrow> bool) \<Rightarrow> (nat \<Rightarrow> bool) \<Rightarrow> nat \<Rightarrow> runtime \<Rightarrow> runtime \<times> unit option" where
  "invokeHandle reverses fails fn w =
     (w\<lparr>installed := (if reverses fn then removeAll fn (installed w) else installed w),
        invoked := invoked w @ [fn]\<rparr>,
      if fails fn then None else Some ())"

text \<open>
  \<open>onEnable\<close> of \<open>src/index.ts\<close>; \<open>found\<close> says whether \<open>findMessageActionsModule\<close>
  found a module to patch.
\<close>

definition onEnable :: "bool \<Rightarrow> runtime \<Rightarrow> runtime" where
  "onEnable found w =
     (if \<not> found then w
      else let (w', unpatch) = patcher_after w
           in w'\<lparr>cleanups := cleanups w' @ [unpatch]\<rparr>)"

text \<open>
  \<open>onEnable\<close> of the overlay version in \<open>unnamed/part_000\<close>: nothing happens when the
  patcher cannot be loaded; otherwise the media overlay and the embed renderer are
  patched, each when its target was found, and each handle obtained is collected.
\<close>

definition patchAndCollect :: "bool \<Rightarrow> runtime \<Rightarrow> runtime" where
  "patchAndCollect target w =
     (if \<not> target then w
      else let (w', cleanup) = patcher_after w
           in w'\<lparr>cleanups := cleanups w' @ [cleanup]\<rparr>)"

definition onEnable_p :: "bool \<Rightarrow> bool \<Rightarrow> bool \<Rightarrow> runtime \<Rightarrow> runtime" where
  "onEnable_p patcherLoads overlayTarget embedTarget w =
     (if \<not> patcherLoads then w
      else patchAndCollect embedTarget (patchAndCollect overlayTarget w))"

text \<open>
  \<open>onDisable\<close>, the same in both files: \<open>cleanups.forEach\<close> with a \<open>try\<close>/\<open>catch\<close>
  around each call (the \<open>None\<close> branch is the \<open>catch\<close>, which only logs), then
  \<open>cleanups = []\<close>.
\<close>

fun cleanupsLoop ::
  "(nat \<Rightarrow> bool) \<Rightarrow> (nat \<Rightarrow> bool) \<Rightarrow> nat list \<Rightarrow> runtime \<Rightarrow> runtime \<times> unit option" where
  "cleanupsLoop reverses fails [] w = (w, Some ())"
| "cleanupsLoop reverses fails (fn # rest) w =
     (case invokeHandle reverses fails fn w of
        (w', None) \<Rightarrow> cleanupsLoop reverses fails rest w'
      | (w', Some u) \<Rightarrow> cleanupsLoop reverses fails rest w')"

definition onDisable ::
  "(nat \<Rightarrow> bool) \<Rightarrow> (nat \<Rightarrow> bool) \<Rightarrow> runtime \<Rightarrow> runtime \<times> unit option" where
  "onDisable reverses fails w =
     (case cleanupsLoop reverses fails (cleanups w) w of
        (w', None) \<Rightarrow> (w', None)
      | (w', Some u) \<Rightarrow> (w'\<lparr>cleanups := []\<rparr>, Some ()))"

text \<open>
  A sequence of lifecycle calls made by the plugin manager; it ends at the first call
  that throws.
\<close>

datatype lifecycle_call = Enable bool | Enable_p bool bool bool | Disable

fun lifecycle ::
  "(nat \<Rightarrow> bool) \<Rightarrow> (nat \<Rightarrow> bool) \<Rightarrow> lifecycle_call list \<Rightarrow> runtime \<Rightarrow> runtime \<times> unit option"
  where
  "lifecycle reverses fails [] w = (w, Some ())"
| "lifecycle reverses fails (Enable found # rest) w =
     lifecycle reverses fails rest (onEnable found w)"
| "lifecycle reverses fails (Enable_p p ov em # rest) w =
     lifecycle reverses fails rest (onEnable_p p ov em w)"
| "lifecycle reverses fails (Disable # rest) w =
     (case onDisable reverses fails w of
        (w', None) \<Rightarrow> (w', None)
      | (w', Some u) \<Rightarrow> lifecycle reverses fails rest w')"

section \<open>Notions used to state the results\<close>

text \<open>
  The definitions of this section are not translations of source functions; they are
  the vocabulary of the theorems below.
\<close>

subsection \<open>Reading a message\<close>

text \<open>A property read that yields \<open>undefined\<close> where \<open>getp\<close> throws.\<close>

definition readp :: "store \<Rightarrow> val \<Rightarrow> string \<Rightarrow> val" where
  "readp h v k = (case getp h v k of Some x \<Rightarrow> x | None \<Rightarrow> Undefined)"

definition strOf :: "val \<Rightarrow> string" where
  "strOf v = (case v of Str s \<Rightarrow> s | _ \<Rightarrow> [])"

definition attachmentsOf :: "store \<Rightarrow> val \<Rightarrow> val list" where
  "attachmentsOf h message = elems h (readp h message ''attachments'')"

definition embedsOf :: "store \<Rightarrow> val \<Rightarrow> val list" where
  "embedsOf h message = elems h (readp h message ''embeds'')"

text \<open>
  A message conforms to the host's message schema when every element of its attachment
  list is an object whose content type, under either spelling, is a string if present,
  and every element of its embed list is an object. A message that is absent, or has no
  such lists, conforms.
\<close>

definition stringOrAbsent :: "val \<Rightarrow> bool" where
  "stringOrAbsent v =
     (case v of Undefined \<Rightarrow> True | Null \<Rightarrow> True | Str s \<Rightarrow> True | _ \<Rightarrow> False)"

definition conformsAttachment :: "store \<Rightarrow> val \<Rightarrow> bool" where
  "conformsAttachment h att =
     (att \<noteq> Undefined \<and> att \<noteq> Null
      \<and> stringOrAbsent (readp h att ''content_type'')
      \<and> stringOrAbsent (readp h att ''contentType''))"

definition conformsEmbed :: "val \<Rightarrow> bool" where
  "conformsEmbed emb = (emb \<noteq> Undefined \<and> emb \<noteq> Null)"

definition conforms :: "store \<Rightarrow> val \<Rightarrow> bool" where
  "conforms h message =
     (list_all (conformsAttachment h) (attachmentsOf h message)
      \<and> list_all conformsEmbed (embedsOf h message))"

text \<open>
  The message an after-hook looks at: \<open>args[0]\<close> in \<open>src/index.ts\<close>, and
  \<open>(args[0] && args[0].message) || args[0] || null\<close> in \<open>unnamed/part_000\<close>.
\<close>

definition hookMessage :: "store \<Rightarrow> val list \<Rightarrow> val" where
  "hookMessage h args =
     (let a0 = arg0 args
      in lor (lor (if truthy a0 then readp h a0 ''message'' else a0) a0) Null)"

subsection \<open>Content types\<close>

datatype kind = Image | Video

definition mimeType :: "string \<Rightarrow> string" where
  "mimeType s = takeWhile (\<lambda>c. c \<noteq> CHR '';'') s"

text \<open>
  The matching rule in the specification's words: the MIME type is the part before the
  first semicolon; it is compared without regard to case with the prefixes \<open>image/\<close>
  and \<open>video/\<close>.
\<close>

definition spec_kind :: "string \<Rightarrow> kind option" where
  "spec_kind s =
     (let t = map lowerChar (mimeType s)
      in if prefix ''image/'' t then Some Image
         else if prefix ''video/'' t then Some Video
         else None)"

text \<open>The same rule with the letters compared as they are.\<close>

definition kind_p :: "string \<Rightarrow> kind option" where
  "kind_p s =
     (let t = mimeType s
      in if prefix ''image/'' t then Some Image
         else if prefix ''video/'' t then Some Video
         else None)"

text \<open>The rule with the whole string lower-cased and nothing cut off.\<close>

definition kind_i :: "string \<Rightarrow> kind option" where
  "kind_i s =
     (let t = map lowerChar s
      in if prefix ''image/'' t then Some Image
         else if prefix ''video/'' t then Some Video
         else None)"

text \<open>
  The content type string of an attachment as each version reads it: \<open>content_type\<close>
  alone, or \<open>content_type || contentType\<close>; a missing one counts as the empty string.
\<close>

definition ctString_p :: "store \<Rightarrow> val \<Rightarrow> string" where
  "ctString_p h att = strOf (readp h att ''content_type'')"

definition ctString_i :: "store \<Rightarrow> val \<Rightarrow> string" where
  "ctString_i h att = strOf (lor (readp h att ''content_type'') (readp h att ''contentType''))"

subsection \<open>Media descriptors and the order in which media are picked\<close>

text \<open>
  The descriptor the first-match version builds from an attachment or from the image or
  video object of an embed, and the one it builds for a gifv embed.
\<close>

definition descriptor_p :: "store \<Rightarrow> val \<Rightarrow> kind \<Rightarrow> val" where
  "descriptor_p h item k =
     Obj [(''url'', readp h item ''url''),
          (''proxyURL'', lor (readp h item ''proxy_url'') (readp h item ''url'')),
          (''width'', lor (readp h item ''width'') (Num 0)),
          (''height'', lor (readp h item ''height'') (Num 0)),
          (''isVideo'', Bool (k = Video))]"

definition gifvDescriptor_p :: "store \<Rightarrow> val \<Rightarrow> val" where
  "gifvDescriptor_p h emb =
     (let v = readp h emb ''video'' in
      Obj [(''url'', lor (readp h emb ''url'') (readp h v ''url'')),
           (''proxyURL'',
              lor (lor (readp h v ''proxy_url'') (readp h v ''url'')) (readp h emb ''url'')),
           (''width'', lor (readp h v ''width'') (Num 0)),
           (''height'', lor (readp h v ''height'') (Num 0)),
           (''isVideo'', Bool True)])"

text \<open>The same for the list version, whose descriptors have three properties.\<close>

definition descriptor_i :: "store \<Rightarrow> val \<Rightarrow> kind \<Rightarrow> val" where
  "descriptor_i h item k =
     Obj [(''url'', readp h item ''url''),
          (''proxyUrl'',
             lor (lor (readp h item ''proxy_url'') (readp h item ''proxyURL''))
                 (readp h item ''url'')),
          (''isVideo'', Bool (k = Video))]"

definition gifvDescriptor_i :: "store \<Rightarrow> val \<Rightarrow> val" where
  "gifvDescriptor_i h emb =
     (let v = readp h emb ''video'' in
      Obj [(''url'', lor (readp h emb ''url'') (readp h v ''url'')),
           (''proxyUrl'',
              lor (lor (readp h v ''proxy_url'') (readp h v ''proxyURL'')) (readp h v ''url'')),
           (''isVideo'', Bool True)])"

text \<open>
  The precedence of the specification (section 4.2): the first attachment whose content
  type qualifies; failing that, for each embed in order, the video of a gifv embed, else
  its video, else its image. Attachments qualify here by the case-sensitive rule
  \<open>kind_p\<close>.
\<close>

definition attachmentPick_p :: "store \<Rightarrow> val \<Rightarrow> val option" where
  "attachmentPick_p h att = map_option (descriptor_p h att) (kind_p (ctString_p h att))"

definition spec_embedPick :: "store \<Rightarrow> val \<Rightarrow> val option" where
  "spec_embedPick h emb =
     (if readp h emb ''type'' = Str ''gifv'' \<and> truthy (readp h emb ''video'')
      then Some (gifvDescriptor_p h emb)
      else if truthy (readp h emb ''video'')
      then Some (descriptor_p h (readp h emb ''video'') Video)
      else if truthy (readp h emb ''image'')
      then Some (descriptor_p h (readp h emb ''image'') Image)
      else None)"

definition spec_firstMedia :: "store \<Rightarrow> val \<Rightarrow> val" where
  "spec_firstMedia h message =
     (case List.map_filter (attachmentPick_p h) (attachmentsOf h message)
           @ List.map_filter (spec_embedPick h) (embedsOf h message) of
        [] \<Rightarrow> Null
      | d # _ \<Rightarrow> d)"

text \<open>
  All media of a message in the order of the list version: the qualifying attachments,
  then for each embed its gifv video, its image, and its video when the embed is not a
  gifv.
\<close>

definition attachmentPicks_i :: "store \<Rightarrow> val \<Rightarrow> val list" where
  "attachmentPicks_i h att =
     (case kind_i (ctString_i h att) of None \<Rightarrow> [] | Some k \<Rightarrow> [descriptor_i h att k])"

definition embedPicks_i :: "store \<Rightarrow> val \<Rightarrow> val list" where
  "embedPicks_i h emb =
     (if readp h emb ''type'' = Str ''gifv'' \<and> truthy (readp h emb ''video'')
      then [gifvDescriptor_i h emb] else [])
     @ (if truthy (readp h emb ''image'')
        then [descriptor_i h (readp h emb ''image'') Image] else [])
     @ (if truthy (readp h emb ''video'') \<and> readp h emb ''type'' \<noteq> Str ''gifv''
        then [descriptor_i h (readp h emb ''video'') Video] else [])"

definition allMedia_i :: "store \<Rightarrow> val \<Rightarrow> val list" where
  "allMedia_i h message =
     concat (map (attachmentPicks_i h) (attachmentsOf h message))
     @ concat (map (embedPicks_i h) (embedsOf h message))"

text \<open>
  The first of them, as a precedence: the first qualifying attachment (by the rule
  \<open>spec_kind\<close>); failing that, for each embed in order, the video of a gifv embed, else
  its image, else its video.
\<close>

definition embedPick_i :: "store \<Rightarrow> val \<Rightarrow> val option" where
  "embedPick_i h emb =
     (if readp h emb ''type'' = Str ''gifv'' \<and> truthy (readp h emb ''video'')
      then Some (gifvDescriptor_i h emb)
      else if truthy (readp h emb ''image'')
      then Some (descriptor_i h (readp h emb ''image'') Image)
      else if truthy (readp h emb ''video'')
      then Some (descriptor_i h (readp h emb ''video'') Video)
      else None)"

definition firstMedia_i :: "store \<Rightarrow> val \<Rightarrow> val" where
  "firstMedia_i h message =
     (case List.map_filter
             (\<lambda>att. map_option (descriptor_i h att) (spec_kind (ctString_i h att)))
             (attachmentsOf h message)
           @ List.map_filter (embedPick_i h) (embedsOf h message) of
        [] \<Rightarrow> Undefined
      | d # _ \<Rightarrow> d)"

text \<open>
  A message without media: no attachment qualifies, even by the most permissive rule,
  and no embed has an image or a video.
\<close>

definition noMedia :: "store \<Rightarrow> val \<Rightarrow> bool" where
  "noMedia h message =
     (list_all (\<lambda>att. spec_kind (ctString_i h att) = None) (attachmentsOf h message)
      \<and> list_all (\<lambda>emb. \<not> truthy (readp h emb ''video'') \<and> \<not> truthy (readp h emb ''image''))
           (embedsOf h message))"

text \<open>
  What holds of every descriptor of the first-match version: width and height are
  present or zero, and \<open>isVideo\<close> is a boolean. For the list version: \<open>isVideo\<close> is a
  boolean.
\<close>

definition presentOrZero :: "val \<Rightarrow> bool" where
  "presentOrZero v = (truthy v \<or> v = Num 0)"

definition defaulted :: "val \<Rightarrow> bool" where
  "defaulted d =
     (presentOrZero (field d ''width'') \<and> presentOrZero (field d ''height'')
      \<and> (field d ''isVideo'' = Bool True \<or> field d ''isVideo'' = Bool False))"

definition booleanFlag :: "val \<Rightarrow> bool" where
  "booleanFlag d = (field d ''isVideo'' = Bool True \<or> field d ''isVideo'' = Bool False)"

subsection \<open>Where a hook looks for the action list\<close>

text \<open>
  The list an after-hook appends to, if it finds one. \<open>src/index.ts\<close>: the return
  value itself, else its \<open>items\<close>, else its \<open>actions\<close>. \<open>unnamed/part_000\<close>: the return
  value itself, else its \<open>props.options\<close>, else \<open>props.options\<close> of the first element
  of \<open>props.children\<close> that has such a list.
\<close>

definition optionsTarget_i :: "store \<Rightarrow> val \<Rightarrow> val option" where
  "optionsTarget_i h result =
     (if isArray h result then Some result
      else if truthy result \<and> isArray h (readp h result ''items'')
      then Some (readp h result ''items'')
      else if truthy result \<and> isArray h (readp h result ''actions'')
      then Some (readp h result ''actions'')
      else None)"

definition childTarget :: "store \<Rightarrow> val \<Rightarrow> val option" where
  "childTarget h child =
     (if truthy child \<and> truthy (readp h child ''props'')
         \<and> isArray h (readp h (readp h child ''props'') ''options'')
      then Some (readp h (readp h child ''props'') ''options'')
      else None)"

definition optionsTarget_p :: "store \<Rightarrow> val \<Rightarrow> val option" where
  "optionsTarget_p h ret =
     (if isArray h ret then Some ret
      else if truthy ret \<and> truthy (readp h ret ''props'') then
        (let props = readp h ret ''props'' in
         if isArray h (readp h props ''options'') then Some (readp h props ''options'')
         else if isArray h (readp h props ''children'') then
           (case List.map_filter (childTarget h) (elems h (readp h props ''children'')) of
              [] \<Rightarrow> None
            | t # _ \<Rightarrow> Some t)
         else None)
      else None)"

definition pushAt :: "store \<Rightarrow> val option \<Rightarrow> val \<Rightarrow> store" where
  "pushAt h target item = (case target of None \<Rightarrow> h | Some t \<Rightarrow> push h t item)"

subsection \<open>The lifecycle invariant\<close>

text \<open>
  Between lifecycle calls, the handles invoked so far and the handles collected are, in
  this order, all handles ever created, and the patches in place are those of the
  collected handles and those an invoked handle failed to reverse.
\<close>

definition consistent :: "(nat \<Rightarrow> bool) \<Rightarrow> runtime \<Rightarrow> bool" where
  "consistent reverses w =
     (invoked w @ cleanups w = [0..<counter w]
      \<and> set (installed w) = {fn \<in> set (invoked w). \<not> reverses fn} \<union> set (cleanups w))"

definition headOpt :: "'a list \<Rightarrow> 'a option" where
  "headOpt xs = (case xs of [] \<Rightarrow> None | x # _ \<Rightarrow> Some x)"

section \<open>Example stores\<close>

text \<open>
  The example message of the specification, \<open>{attachments: [{url: "a.png",
  content_type: "image/png; charset=x", width: 100, height: 50}]}\<close>: the message at
  address 0, its attachment list at 1, the attachment at 2.
\<close>

definition exampleStore :: store where
  "exampleStore =
     (\<lambda>_. Object [])
       (0 := Object [(''attachments'', Ref 1)],
        1 := Array [Ref 2],
        2 := Object [(''url'', Str ''a.png''),
                     (''content_type'', Str ''image/png; charset=x''),
                     (''width'', Num 100),
                     (''height'', Num 50)])"

definition exampleMessage :: val where
  "exampleMessage = Ref 0"

definition exampleDescriptor_p :: val where
  "exampleDescriptor_p =
     Obj [(''url'', Str ''a.png''), (''proxyURL'', Str ''a.png''),
          (''width'', Num 100), (''height'', Num 50), (''isVideo'', Bool False)]"

definition exampleDescriptor_i :: val where
  "exampleDescriptor_i =
     Obj [(''url'', Str ''a.png''), (''proxyUrl'', Str ''a.png''), (''isVideo'', Bool False)]"

text \<open>A message with one attachment of content type \<open>ct\<close> and url \<open>a.png\<close>.\<close>

definition attachmentStore :: "string \<Rightarrow> store" where
  "attachmentStore ct =
     (\<lambda>_. Object [])
       (0 := Object [(''attachments'', Ref 1)],
        1 := Array [Ref 2],
        2 := Object [(''url'', Str ''a.png''), (''content_type'', Str ct)])"

text \<open>
  A message with one embed of type \<open>t\<close> that has an image (\<open>i.png\<close>) and a video
  (\<open>v.mp4\<close>).
\<close>

definition embedStore :: "string \<Rightarrow> store" where
  "embedStore t =
     (\<lambda>_. Object [])
       (0 := Object [(''embeds'', Ref 1)],
        1 := Array [Ref 2],
        2 := Object [(''type'', Str t), (''image'', Ref 3), (''video'', Ref 4)],
        3 := Object [(''url'', Str ''i.png'')],
        4 := Object [(''url'', Str ''v.mp4'')])"

text \<open>
  Partial messages: an attachment without content type next to a gifv embed whose video
  has no url; an image attachment without url; an attachment list holding \<open>null\<close>.
\<close>

definition partialStore :: store where
  "partialStore =
     (\<lambda>_. Object [])
       (0 := Object [(''attachments'', Ref 1), (''embeds'', Ref 3)],
        1 := Array [Ref 2],
        2 := Object [(''url'', Str ''a.png'')],
        3 := Array [Ref 4],
        4 := Object [(''type'', Str ''gifv''), (''video'', Ref 5)],
        5 := Object [])"

definition noUrlStore :: store where
  "noUrlStore =
     (\<lambda>_. Object [])
       (0 := Object [(''attachments'', Ref 1)],
        1 := Array [Ref 2],
        2 := Object [(''content_type'', Str ''image/png'')])"

definition nullAttachmentStore :: store where
  "nullAttachmentStore =
     (\<lambda>_. Object [])(0 := Object [(''attachments'', Ref 1)], 1 := Array [Null])"

text \<open>
  Return values of the action-sheet builder, added to a store at addresses 10 to 17: the
  action list itself (10, holding the host's item 11), and objects that hold it as
  \<open>options\<close> (12), as \<open>items\<close> (13), as \<open>props.options\<close> (14), and as \<open>props.options\<close>
  of the second element of \<open>props.children\<close> (15).
\<close>

definition sheet :: "store \<Rightarrow> store" where
  "sheet h =
     h(10 := Array [Ref 11],
       11 := Object [(''label'', Str ''Reply'')],
       12 := Object [(''options'', Ref 10)],
       13 := Object [(''items'', Ref 10)],
       14 := Object [(''props'', Ref 12)],
       15 := Object [(''props'', Ref 16)],
       16 := Object [(''children'', Ref 17)],
       17 := Array [Null, Ref 14])"



section \<open>Lemmas\<close>

subsection \<open>Reads that cannot throw\<close>

lemma getp_readp: "v \<noteq> Undefined \<Longrightarrow> v \<noteq> Null \<Longrightarrow> getp h v k = Some (readp h v k)"
  by (cases v) (auto simp: readp_def split: cell.splits)

lemma truthy_getp: "truthy v \<Longrightarrow> getp h v k = Some (readp h v k)"
  by (cases v) (auto simp: readp_def split: cell.splits)

lemma getp_opt_readp: "getp_opt h v k = Some (readp h v k)"
  by (cases v) (auto simp: getp_opt_def readp_def split: cell.splits)

lemma readp_falsy: "\<not> truthy v \<Longrightarrow> readp h v k = Undefined"
  by (cases v) (auto simp: readp_def)

lemma elems_not_array: "\<not> isArray h v \<Longrightarrow> elems h v = []"
  by (auto simp: isArray_def elems_def split: val.splits cell.splits)

lemma elems_Undefined: "elems h Undefined = []"
  by (simp add: elems_def)

lemma isArray_cases: "isArray h t \<Longrightarrow> \<exists>a xs. t = Ref a \<and> h a = Array xs"
  by (auto simp: isArray_def split: val.splits cell.splits)

lemma push_Array: "h a = Array xs \<Longrightarrow> push h (Ref a) item = h(a := Array (xs @ [item]))"
  by (simp add: push_def)

subsection \<open>Strings\<close>

lemma lowerChar_semicolon: "lowerChar c = CHR '';'' \<longleftrightarrow> c = CHR '';''"
  by (cases c) (auto simp: lowerChar_def Let_def char_of_def of_char_def)

lemma takeWhile_lower:
  "takeWhile (\<lambda>c. c \<noteq> CHR '';'') (map lowerChar s) =
   map lowerChar (takeWhile (\<lambda>c. c \<noteq> CHR '';'') s)"
  by (induction s) (auto simp: lowerChar_semicolon)

lemma prefix_takeWhile:
  "\<forall>c \<in> set p. P c \<Longrightarrow> prefix p (takeWhile P s) \<longleftrightarrow> prefix p s"
proof (induction p arbitrary: s)
  case Nil
  then show ?case by simp
next
  case (Cons a p)
  then show ?case by (cases s) auto
qed

lemma not_image_and_video: "prefix ''image/'' t \<Longrightarrow> \<not> prefix ''video/'' t"
  by (auto simp: prefix_def)

lemma lower_prefix:
  "map lowerChar p = p \<Longrightarrow> prefix p t \<Longrightarrow> prefix p (map lowerChar t)"
  by (auto simp: prefix_def)

text \<open>Lower-casing the whole string or only its MIME type gives the same verdict.\<close>

lemma kind_i_spec_kind: "kind_i s = spec_kind s"
proof -
  have "map lowerChar (mimeType s) = takeWhile (\<lambda>c. c \<noteq> CHR '';'') (map lowerChar s)"
    by (simp add: mimeType_def takeWhile_lower)
  moreover have "prefix ''image/'' (takeWhile (\<lambda>c. c \<noteq> CHR '';'') t) \<longleftrightarrow> prefix ''image/'' t"
    and "prefix ''video/'' (takeWhile (\<lambda>c. c \<noteq> CHR '';'') t) \<longleftrightarrow> prefix ''video/'' t" for t
    by (rule prefix_takeWhile; simp)+
  ultimately show ?thesis
    by (simp add: kind_i_def spec_kind_def)
qed

text \<open>What qualifies letter for letter also qualifies without regard to case.\<close>

lemma kind_p_spec_kind: "kind_p s = Some k \<Longrightarrow> spec_kind s = Some k"
proof -
  have i: "prefix ''image/'' t \<Longrightarrow> prefix ''image/'' (map lowerChar t)" for t
    by (rule lower_prefix) (simp_all add: lowerChar_def)
  have v: "prefix ''video/'' t \<Longrightarrow> prefix ''video/'' (map lowerChar t)" for t
    by (rule lower_prefix) (simp_all add: lowerChar_def)
  assume "kind_p s = Some k"
  then show ?thesis
    using i[of "mimeType s"] v[of "mimeType s"] not_image_and_video[of "map lowerChar (mimeType s)"]
    by (auto simp: kind_p_def spec_kind_def Let_def split: if_splits)
qed

lemma kind_p_Nil: "kind_p [] = None"
  by (simp add: kind_p_def mimeType_def)

lemma split0_stringOrAbsent:
  "stringOrAbsent c \<Longrightarrow> split0 (lor c (Str [])) = Some (mimeType (strOf c))"
  by (cases c) (auto simp: stringOrAbsent_def split0_def lor_def strOf_def mimeType_def)

lemma toLowerCase_stringOrAbsent:
  "stringOrAbsent c1 \<Longrightarrow> stringOrAbsent c2 \<Longrightarrow>
   toLowerCase (lor (lor c1 c2) (Str [])) = Some (map lowerChar (strOf (lor c1 c2)))"
  by (cases c1; cases c2) (auto simp: stringOrAbsent_def toLowerCase_def lor_def strOf_def)

lemma strOf_falsy: "stringOrAbsent c \<Longrightarrow> \<not> truthy c \<Longrightarrow> strOf c = []"
  by (cases c) (auto simp: stringOrAbsent_def strOf_def)

subsection \<open>Lists\<close>

lemma map_filter_none: "list_all (\<lambda>x. f x = None) xs \<Longrightarrow> List.map_filter f xs = []"
  by (induction xs) (auto simp: List.map_filter_simps)

lemma concat_map_nil: "list_all (\<lambda>x. f x = []) xs \<Longrightarrow> concat (map f xs) = []"
  by (simp add: list_all_iff)

lemma list_all_conj_mono:
  "list_all P xs \<Longrightarrow> list_all Q xs \<Longrightarrow> (\<And>x. P x \<Longrightarrow> Q x \<Longrightarrow> R x) \<Longrightarrow> list_all R xs"
  by (induction xs) auto

lemma map_filter_hd_set:
  "List.map_filter f xs = t # ts \<Longrightarrow> \<exists>x \<in> set xs. f x = Some t"
  by (induction xs) (auto simp: List.map_filter_simps split: option.splits)

lemma map_filter_append_hd:
  "List.map_filter f xs @ List.map_filter g ys = d # ds \<Longrightarrow>
   (\<exists>x \<in> set xs. f x = Some d) \<or> (\<exists>y \<in> set ys. g y = Some d)"
  by (cases "List.map_filter f xs") (auto dest: map_filter_hd_set)

lemma headOpt_concat:
  "headOpt (concat (map F xs)) = headOpt (List.map_filter (\<lambda>x. headOpt (F x)) xs)"
proof (induction xs)
  case Nil
  then show ?case by (simp add: List.map_filter_simps)
next
  case (Cons x xs)
  then show ?case
    by (cases "F x") (simp_all add: List.map_filter_simps headOpt_def)
qed

lemma headOpt_append:
  "headOpt (xs @ ys) = (case headOpt xs of Some x \<Rightarrow> Some x | None \<Rightarrow> headOpt ys)"
  by (cases xs) (simp_all add: headOpt_def)

subsection \<open>The first-match extractor on conforming messages\<close>

lemma attachmentStep_p_conforms:
  "conformsAttachment h att \<Longrightarrow> attachmentStep_p h att = Some (attachmentPick_p h att)"
  by (auto simp: conformsAttachment_def attachmentStep_p_def attachmentPick_p_def getp_readp
      split0_stringOrAbsent kind_p_def ctString_p_def descriptor_p_def Let_def
      dest: not_image_and_video)

lemma embedStep_p_conforms:
  "conformsEmbed emb \<Longrightarrow> embedStep_p h emb = Some (spec_embedPick h emb)"
  by (auto simp: conformsEmbed_def embedStep_p_def spec_embedPick_def getp_readp truthy_getp
      gifvDescriptor_p_def descriptor_p_def Let_def)

lemma attachmentsLoop_p_conforms:
  "list_all (conformsAttachment h) atts \<Longrightarrow>
   attachmentsLoop_p h atts =
     Some (case List.map_filter (attachmentPick_p h) atts of [] \<Rightarrow> None | d # _ \<Rightarrow> Some d)"
  by (induction atts)
     (auto simp: attachmentStep_p_conforms List.map_filter_simps split: option.splits)

lemma embedsLoop_p_conforms:
  "list_all conformsEmbed embs \<Longrightarrow>
   embedsLoop_p h embs =
     Some (case List.map_filter (spec_embedPick h) embs of [] \<Rightarrow> None | d # _ \<Rightarrow> Some d)"
  by (induction embs)
     (auto simp: embedStep_p_conforms List.map_filter_simps split: option.splits)

lemma extractMedia_p_conforms:
  assumes "conforms h message"
  shows "extractMedia_p h message = Some (spec_firstMedia h message)"
proof (cases "truthy message")
  case False
  then show ?thesis
    by (simp add: extractMedia_p_def spec_firstMedia_def attachmentsOf_def embedsOf_def
        readp_falsy elems_Undefined List.map_filter_simps)
next
  case True
  let ?atts = "attachmentsOf h message" and ?embs = "embedsOf h message"
  have a: "(if isArray h (readp h message ''attachments'')
            then attachmentsLoop_p h (elems h (readp h message ''attachments''))
            else Some None)
           = Some (case List.map_filter (attachmentPick_p h) ?atts of
                     [] \<Rightarrow> None | d # _ \<Rightarrow> Some d)"
    using assms
    by (auto simp: conforms_def attachmentsOf_def attachmentsLoop_p_conforms elems_not_array
        List.map_filter_simps)
  have e: "(if isArray h (readp h message ''embeds'')
            then embedsLoop_p h (elems h (readp h message ''embeds''))
            else Some None)
           = Some (case List.map_filter (spec_embedPick h) ?embs of
                     [] \<Rightarrow> None | d # _ \<Rightarrow> Some d)"
    using assms
    by (auto simp: conforms_def embedsOf_def embedsLoop_p_conforms elems_not_array
        List.map_filter_simps)
  show ?thesis
    using True
    by (simp add: extractMedia_p_def truthy_getp a e spec_firstMedia_def
        split: list.splits)
qed

lemma attachmentPick_p_truthy: "attachmentPick_p h att = Some d \<Longrightarrow> truthy d"
  by (auto simp: attachmentPick_p_def descriptor_p_def)

lemma spec_embedPick_truthy: "spec_embedPick h emb = Some d \<Longrightarrow> truthy d"
  by (auto simp: spec_embedPick_def gifvDescriptor_p_def descriptor_p_def Let_def
      split: if_splits)

lemma spec_firstMedia_truthy:
  assumes "spec_firstMedia h message \<noteq> Null"
  shows "truthy (spec_firstMedia h message)"
proof -
  from assms obtain d ds where
    l: "List.map_filter (attachmentPick_p h) (attachmentsOf h message)
          @ List.map_filter (spec_embedPick h) (embedsOf h message) = d # ds"
    and d: "spec_firstMedia h message = d"
    by (auto simp: spec_firstMedia_def split: list.splits)
  from map_filter_append_hd[OF l] have "truthy d"
    by (auto dest: attachmentPick_p_truthy spec_embedPick_truthy)
  with d show ?thesis by simp
qed

subsection \<open>The list extractor on conforming messages\<close>

lemma attachmentMedia_i_conforms:
  "conformsAttachment h att \<Longrightarrow> attachmentMedia_i h att = Some (attachmentPicks_i h att)"
  by (auto simp: conformsAttachment_def attachmentMedia_i_def attachmentPicks_i_def getp_readp
      toLowerCase_stringOrAbsent kind_i_def ctString_i_def descriptor_i_def Let_def
      dest: not_image_and_video)

lemma embedMedia_i_conforms:
  "conformsEmbed emb \<Longrightarrow> embedMedia_i h emb = Some (embedPicks_i h emb)"
  by (auto simp: conformsEmbed_def embedMedia_i_def embedPicks_i_def getp_readp truthy_getp
      gifvDescriptor_i_def descriptor_i_def Let_def)

lemma attachmentsLoop_i_conforms:
  "list_all (conformsAttachment h) atts \<Longrightarrow>
   attachmentsLoop_i h media atts = Some (media @ concat (map (attachmentPicks_i h) atts))"
  by (induction atts arbitrary: media) (auto simp: attachmentMedia_i_conforms)

lemma embedsLoop_i_conforms:
  "list_all conformsEmbed embs \<Longrightarrow>
   embedsLoop_i h media embs = Some (media @ concat (map (embedPicks_i h) embs))"
  by (induction embs arbitrary: media) (auto simp: embedMedia_i_conforms)

lemma extractMedia_i_conforms:
  assumes "conforms h message"
  shows "extractMedia_i h message = Some (allMedia_i h message)"
proof -
  have a: "(if isArray h (readp h message ''attachments'')
            then attachmentsLoop_i h [] (elems h (readp h message ''attachments''))
            else Some [])
           = Some (concat (map (attachmentPicks_i h) (attachmentsOf h message)))"
    using assms
    by (auto simp: conforms_def attachmentsOf_def attachmentsLoop_i_conforms elems_not_array)
  have e: "\<And>media. (if isArray h (readp h message ''embeds'')
            then embedsLoop_i h media (elems h (readp h message ''embeds''))
            else Some media)
           = Some (media @ concat (map (embedPicks_i h) (embedsOf h message)))"
    using assms
    by (auto simp: conforms_def embedsOf_def embedsLoop_i_conforms elems_not_array)
  show ?thesis
    by (simp add: extractMedia_i_def getp_opt_readp a e allMedia_i_def)
qed

lemma headOpt_attachmentPicks_i:
  "headOpt (attachmentPicks_i h att) =
     map_option (descriptor_i h att) (spec_kind (ctString_i h att))"
  by (simp add: attachmentPicks_i_def kind_i_spec_kind headOpt_def split: option.splits)

lemma headOpt_embedPicks_i: "headOpt (embedPicks_i h emb) = embedPick_i h emb"
  by (simp add: embedPicks_i_def embedPick_i_def headOpt_def)

lemma hd_allMedia_i:
  assumes "allMedia_i h message \<noteq> []"
  shows "hd (allMedia_i h message) = firstMedia_i h message"
proof -
  let ?pick = "\<lambda>att. map_option (descriptor_i h att) (spec_kind (ctString_i h att))"
  have a: "headOpt (concat (map (attachmentPicks_i h) (attachmentsOf h message))) =
           headOpt (List.map_filter ?pick (attachmentsOf h message))"
    by (simp add: headOpt_concat headOpt_attachmentPicks_i)
  have e: "headOpt (concat (map (embedPicks_i h) (embedsOf h message))) =
           headOpt (List.map_filter (embedPick_i h) (embedsOf h message))"
    by (simp add: headOpt_concat headOpt_embedPicks_i)
  have "headOpt (allMedia_i h message) =
        headOpt (List.map_filter ?pick (attachmentsOf h message)
                 @ List.map_filter (embedPick_i h) (embedsOf h message))"
    by (simp only: allMedia_i_def headOpt_append a e)
  with assms show ?thesis
    by (cases "allMedia_i h message") (auto simp: firstMedia_i_def headOpt_def split: list.splits)
qed

subsection \<open>Messages without media\<close>

lemma attachmentPick_p_none:
  assumes "conformsAttachment h att" and "spec_kind (ctString_i h att) = None"
  shows "attachmentPick_p h att = None"
proof (cases "truthy (readp h att ''content_type'')")
  case True
  then have "ctString_i h att = ctString_p h att"
    by (simp add: ctString_i_def ctString_p_def lor_def)
  with assms(2) have "kind_p (ctString_p h att) = None"
    using kind_p_spec_kind by (cases "kind_p (ctString_p h att)") auto
  then show ?thesis by (simp add: attachmentPick_p_def)
next
  case False
  with assms(1) have "ctString_p h att = []"
    by (simp add: conformsAttachment_def ctString_p_def strOf_falsy)
  then show ?thesis by (simp add: attachmentPick_p_def kind_p_Nil)
qed

lemma noMedia_first:
  assumes "conforms h message" and "noMedia h message"
  shows "spec_firstMedia h message = Null"
proof -
  have c: "list_all (conformsAttachment h) (attachmentsOf h message)"
    using assms(1) by (simp add: conforms_def)
  have n: "list_all (\<lambda>att. spec_kind (ctString_i h att) = None) (attachmentsOf h message)"
    using assms(2) by (simp add: noMedia_def)
  have "list_all (\<lambda>att. attachmentPick_p h att = None) (attachmentsOf h message)"
    by (rule list_all_conj_mono[OF c n]) (rule attachmentPick_p_none)
  moreover have e: "list_all (\<lambda>emb. \<not> truthy (readp h emb ''video'') \<and> \<not> truthy (readp h emb ''image''))
           (embedsOf h message)"
    using assms(2) by (simp add: noMedia_def)
  have "list_all (\<lambda>emb. spec_embedPick h emb = None) (embedsOf h message)"
    by (rule list.pred_mono_strong[OF e]) (simp add: spec_embedPick_def)
  ultimately show ?thesis
    by (simp add: spec_firstMedia_def map_filter_none)
qed

lemma noMedia_all:
  assumes "noMedia h message"
  shows "allMedia_i h message = []"
proof -
  have n: "list_all (\<lambda>att. spec_kind (ctString_i h att) = None) (attachmentsOf h message)"
    using assms by (simp add: noMedia_def)
  have e: "list_all (\<lambda>emb. \<not> truthy (readp h emb ''video'') \<and> \<not> truthy (readp h emb ''image''))
           (embedsOf h message)"
    using assms by (simp add: noMedia_def)
  have "list_all (\<lambda>att. attachmentPicks_i h att = []) (attachmentsOf h message)"
    by (rule list.pred_mono_strong[OF n]) (simp add: attachmentPicks_i_def kind_i_spec_kind)
  moreover have "list_all (\<lambda>emb. embedPicks_i h emb = []) (embedsOf h message)"
    by (rule list.pred_mono_strong[OF e]) (simp add: embedPicks_i_def)
  ultimately show ?thesis
    by (simp add: allMedia_i_def concat_map_nil)
qed

subsection \<open>What every descriptor has\<close>

lemma presentOrZero_lor: "presentOrZero (lor v (Num 0))"
  by (simp add: presentOrZero_def lor_def)

lemma defaulted_Obj:
  "defaulted (Obj [(''url'', u), (''proxyURL'', p), (''width'', lor w (Num 0)),
                   (''height'', lor g (Num 0)), (''isVideo'', Bool b)])"
  by (simp add: defaulted_def field_def lookup_def presentOrZero_lor)

lemma booleanFlag_Obj: "booleanFlag (Obj [(''url'', u), (''proxyUrl'', p), (''isVideo'', Bool b)])"
  by (simp add: booleanFlag_def field_def lookup_def)

lemma attachmentStep_p_defaulted: "attachmentStep_p h att = Some (Some d) \<Longrightarrow> defaulted d"
  by (auto simp: attachmentStep_p_def defaulted_Obj split: bind_splits if_splits)

lemma embedStep_p_defaulted: "embedStep_p h emb = Some (Some d) \<Longrightarrow> defaulted d"
  by (auto simp: embedStep_p_def defaulted_Obj split: bind_splits if_splits)

lemma attachmentsLoop_p_defaulted: "attachmentsLoop_p h atts = Some (Some d) \<Longrightarrow> defaulted d"
  by (induction atts) (auto dest: attachmentStep_p_defaulted split: option.splits)

lemma embedsLoop_p_defaulted: "embedsLoop_p h embs = Some (Some d) \<Longrightarrow> defaulted d"
  by (induction embs) (auto dest: embedStep_p_defaulted split: option.splits)

lemma extractMedia_p_defaulted:
  assumes "extractMedia_p h message = Some d" and "d \<noteq> Null"
  shows "defaulted d"
  using assms
  by (auto simp: extractMedia_p_def split: if_splits bind_splits option.splits
      dest: attachmentsLoop_p_defaulted embedsLoop_p_defaulted)

lemma attachmentMedia_i_flags: "attachmentMedia_i h att = Some ds \<Longrightarrow> list_all booleanFlag ds"
  by (auto simp: attachmentMedia_i_def booleanFlag_Obj split: bind_splits if_splits)

lemma embedMedia_i_flags: "embedMedia_i h emb = Some ds \<Longrightarrow> list_all booleanFlag ds"
  by (auto simp: embedMedia_i_def booleanFlag_Obj split: bind_splits if_splits)

lemma attachmentsLoop_i_flags:
  "attachmentsLoop_i h media atts = Some ds \<Longrightarrow> list_all booleanFlag media \<Longrightarrow>
   list_all booleanFlag ds"
  by (induction atts arbitrary: media) (auto dest: attachmentMedia_i_flags split: bind_splits)

lemma embedsLoop_i_flags:
  "embedsLoop_i h media embs = Some ds \<Longrightarrow> list_all booleanFlag media \<Longrightarrow>
   list_all booleanFlag ds"
  by (induction embs arbitrary: media) (auto dest: embedMedia_i_flags split: bind_splits)

lemma extractMedia_i_flags:
  assumes "extractMedia_i h message = Some ds"
  shows "list_all booleanFlag ds"
proof -
  from assms obtain media where
    a: "(if isArray h (readp h message ''attachments'')
         then attachmentsLoop_i h [] (elems h (readp h message ''attachments''))
         else Some []) = Some media"
    and e: "(if isArray h (readp h message ''embeds'')
         then embedsLoop_i h media (elems h (readp h message ''embeds''))
         else Some media) = Some ds"
    by (auto simp: extractMedia_i_def getp_opt_readp split: bind_splits)
  from a have "list_all booleanFlag media"
    by (auto split: if_splits dest: attachmentsLoop_i_flags)
  with e show ?thesis
    by (auto split: if_splits dest: embedsLoop_i_flags)
qed

subsection \<open>The hooks push at the target and nowhere else\<close>

lemma childrenLoop_target:
  "childrenLoop h item children =
     Some (case List.map_filter (childTarget h) children of
             [] \<Rightarrow> None
           | t # _ \<Rightarrow> Some (push h t item))"
proof (induction children)
  case Nil
  then show ?case by (simp add: List.map_filter_simps)
next
  case (Cons child rest)
  show ?case
  proof (cases "childTarget h child")
    case None
    then show ?thesis
      using Cons
      by (auto simp: childTarget_def truthy_getp List.map_filter_simps split: if_splits)
  next
    case (Some t)
    then show ?thesis
      by (auto simp: childTarget_def truthy_getp List.map_filter_simps split: if_splits)
  qed
qed

lemma afterActions_message:
  "afterActions h args ret = do {
     media \<leftarrow> extractMedia_p h (hookMessage h args);
     if \<not> truthy media then Some (h, ret)
     else if isArray h ret then Some (push h ret (buildFavouriteAction media), ret)
     else do {
       props \<leftarrow> (if truthy ret then getp h ret ''props'' else Some ret);
       if truthy ret \<and> truthy props then do {
         options \<leftarrow> getp h props ''options'';
         if isArray h options then Some (push h options (buildFavouriteAction media), ret)
         else do {
           children \<leftarrow> getp h props ''children'';
           if isArray h children then do {
             r \<leftarrow> childrenLoop h (buildFavouriteAction media) (elems h children);
             case r of Some h' \<Rightarrow> Some (h', ret) | None \<Rightarrow> Some (h, ret)
           } else Some (h, ret)
         }
       } else Some (h, ret)
     }
   }"
  by (simp add: afterActions_def hookMessage_def truthy_getp Let_def)

lemma afterActions_none:
  "extractMedia_p h (hookMessage h args) = Some media \<Longrightarrow> \<not> truthy media \<Longrightarrow>
   afterActions h args ret = Some (h, ret)"
  by (simp add: afterActions_message)

lemma afterActions_target:
  assumes "extractMedia_p h (hookMessage h args) = Some media" and "truthy media"
  shows "afterActions h args ret =
           Some (pushAt h (optionsTarget_p h ret) (buildFavouriteAction media), ret)"
proof (cases "isArray h ret")
  case True
  then show ?thesis
    using assms by (simp add: afterActions_message optionsTarget_p_def pushAt_def)
next
  case False
  show ?thesis
  proof (cases "truthy ret \<and> truthy (readp h ret ''props'')")
    case no: False
    then show ?thesis
      using assms False
      by (auto simp: afterActions_message optionsTarget_p_def pushAt_def truthy_getp)
  next
    case yes: True
    then show ?thesis
      using assms False
      by (auto simp: afterActions_message optionsTarget_p_def pushAt_def truthy_getp
          childrenLoop_target Let_def split: list.splits)
  qed
qed

lemma afterMessageActions_none:
  "extractMedia_i h (arg0 args) = Some [] \<Longrightarrow>
   afterMessageActions h args result = Some (h, result)"
  by (simp add: afterMessageActions_def)

lemma afterMessageActions_target:
  assumes "extractMedia_i h (arg0 args) = Some media" and "media \<noteq> []"
  shows "afterMessageActions h args result =
           Some (pushAt h (optionsTarget_i h result) (favouriteAction media), result)"
  using assms
  by (auto simp: afterMessageActions_def optionsTarget_i_def pushAt_def truthy_getp)

lemma childTarget_isArray: "childTarget h c = Some t \<Longrightarrow> isArray h t"
  by (auto simp: childTarget_def split: if_splits)

lemma optionsTarget_p_isArray: "optionsTarget_p h ret = Some t \<Longrightarrow> isArray h t"
  by (auto simp: optionsTarget_p_def Let_def split: if_splits list.splits
      dest!: map_filter_hd_set dest: childTarget_isArray)

lemma optionsTarget_i_isArray: "optionsTarget_i h ret = Some t \<Longrightarrow> isArray h t"
  by (auto simp: optionsTarget_i_def split: if_splits)

subsection \<open>Messages without media: nothing is found, with or without a schema\<close>

lemma kind_p_none: "spec_kind s = None \<Longrightarrow> kind_p s = None"
  using kind_p_spec_kind by (cases "kind_p s") auto

lemma kind_p_mimeType:
  "kind_p s = None \<Longrightarrow> \<not> prefix ''image/'' (mimeType s) \<and> \<not> prefix ''video/'' (mimeType s)"
  by (auto simp: kind_p_def Let_def split: if_splits)

lemma kind_i_lower:
  "kind_i s = None \<Longrightarrow> \<not> prefix ''image/'' (map lowerChar s) \<and> \<not> prefix ''video/'' (map lowerChar s)"
  by (auto simp: kind_i_def Let_def split: if_splits)

lemma attachmentStep_p_quiet:
  assumes "spec_kind (ctString_i h att) = None"
  shows "attachmentStep_p h att = None \<or> attachmentStep_p h att = Some None"
proof (cases "getp h att ''content_type''")
  case None
  then show ?thesis by (simp add: attachmentStep_p_def)
next
  case (Some c)
  then have r: "readp h att ''content_type'' = c"
    by (simp add: readp_def)
  show ?thesis
  proof (cases "split0 (lor c (Str []))")
    case None
    with Some show ?thesis by (simp add: attachmentStep_p_def)
  next
    case ct: (Some ct)
    have "\<not> prefix ''image/'' ct \<and> \<not> prefix ''video/'' ct"
    proof (cases "truthy c")
      case True
      with ct obtain s where s: "c = Str s" and m: "ct = mimeType s"
        by (cases c) (auto simp: split0_def lor_def mimeType_def)
      from True s r have "ctString_i h att = s"
        by (simp add: ctString_i_def lor_def strOf_def)
      with assms have "kind_p s = None"
        by (simp add: kind_p_none)
      with m show ?thesis
        by (simp add: kind_p_mimeType)
    next
      case False
      with ct have "ct = []"
        by (auto simp: split0_def lor_def)
      then show ?thesis by simp
    qed
    with Some ct show ?thesis
      by (simp add: attachmentStep_p_def)
  qed
qed

lemma attachmentMedia_i_quiet:
  assumes "spec_kind (ctString_i h att) = None"
  shows "attachmentMedia_i h att = None \<or> attachmentMedia_i h att = Some []"
proof (cases "getp h att ''content_type''")
  case None
  then show ?thesis by (simp add: attachmentMedia_i_def)
next
  case c1: (Some c1)
  then have nn: "att \<noteq> Undefined" "att \<noteq> Null"
    by auto
  then have c2: "getp h att ''contentType'' = Some (readp h att ''contentType'')"
    by (simp add: getp_readp)
  from c1 have r: "readp h att ''content_type'' = c1"
    by (simp add: readp_def)
  let ?c = "lor c1 (readp h att ''contentType'')"
  show ?thesis
  proof (cases "toLowerCase (lor ?c (Str []))")
    case None
    with c1 c2 show ?thesis by (simp add: attachmentMedia_i_def)
  next
    case (Some t)
    have "t = map lowerChar (ctString_i h att)"
    proof (cases "truthy ?c")
      case True
      with Some obtain s where "?c = Str s" and "t = map lowerChar s"
        by (cases ?c) (auto simp: toLowerCase_def lor_def)
      with r show ?thesis
        by (simp add: ctString_i_def strOf_def)
    next
      case False
      with Some have "t = []"
        by (auto simp: toLowerCase_def lor_def)
      moreover from False have "strOf ?c = []"
        by (cases ?c) (auto simp: strOf_def)
      ultimately show ?thesis
        using r by (simp add: ctString_i_def)
    qed
    with assms have "\<not> prefix ''image/'' t \<and> \<not> prefix ''video/'' t"
      using kind_i_lower[of "ctString_i h att"] by (simp add: kind_i_spec_kind)
    with c1 c2 Some show ?thesis
      by (simp add: attachmentMedia_i_def)
  qed
qed

lemma embedStep_p_quiet:
  assumes "\<not> truthy (readp h emb ''video'') \<and> \<not> truthy (readp h emb ''image'')"
  shows "embedStep_p h emb = None \<or> embedStep_p h emb = Some None"
proof (cases "emb = Undefined \<or> emb = Null")
  case True
  then show ?thesis by (auto simp: embedStep_p_def)
next
  case False
  then have "conformsEmbed emb" by (simp add: conformsEmbed_def)
  with assms show ?thesis
    by (simp add: embedStep_p_conforms spec_embedPick_def)
qed

lemma embedMedia_i_quiet:
  assumes "\<not> truthy (readp h emb ''video'') \<and> \<not> truthy (readp h emb ''image'')"
  shows "embedMedia_i h emb = None \<or> embedMedia_i h emb = Some []"
proof (cases "emb = Undefined \<or> emb = Null")
  case True
  then show ?thesis by (auto simp: embedMedia_i_def)
next
  case False
  then have "conformsEmbed emb" by (simp add: conformsEmbed_def)
  with assms show ?thesis
    by (simp add: embedMedia_i_conforms embedPicks_i_def)
qed

lemma attachmentsLoop_p_quiet:
  "list_all (\<lambda>att. spec_kind (ctString_i h att) = None) atts \<Longrightarrow>
   attachmentsLoop_p h atts = None \<or> attachmentsLoop_p h atts = Some None"
proof (induction atts)
  case Nil
  then show ?case by simp
next
  case (Cons att atts)
  then have "attachmentStep_p h att = None \<or> attachmentStep_p h att = Some None"
    by (simp add: attachmentStep_p_quiet)
  with Cons show ?case by auto
qed

lemma embedsLoop_p_quiet:
  "list_all (\<lambda>emb. \<not> truthy (readp h emb ''video'') \<and> \<not> truthy (readp h emb ''image'')) embs \<Longrightarrow>
   embedsLoop_p h embs = None \<or> embedsLoop_p h embs = Some None"
proof (induction embs)
  case Nil
  then show ?case by simp
next
  case (Cons emb embs)
  then have "embedStep_p h emb = None \<or> embedStep_p h emb = Some None"
    by (simp add: embedStep_p_quiet)
  with Cons show ?case by auto
qed

lemma attachmentsLoop_i_quiet:
  "list_all (\<lambda>att. spec_kind (ctString_i h att) = None) atts \<Longrightarrow>
   attachmentsLoop_i h media atts = None \<or> attachmentsLoop_i h media atts = Some media"
proof (induction atts)
  case Nil
  then show ?case by simp
next
  case (Cons att atts)
  then have "attachmentMedia_i h att = None \<or> attachmentMedia_i h att = Some []"
    by (simp add: attachmentMedia_i_quiet)
  with Cons show ?case by auto
qed

lemma embedsLoop_i_quiet:
  "list_all (\<lambda>emb. \<not> truthy (readp h emb ''video'') \<and> \<not> truthy (readp h emb ''image'')) embs \<Longrightarrow>
   embedsLoop_i h media embs = None \<or> embedsLoop_i h media embs = Some media"
proof (induction embs)
  case Nil
  then show ?case by simp
next
  case (Cons emb embs)
  then have "embedMedia_i h emb = None \<or> embedMedia_i h emb = Some []"
    by (simp add: embedMedia_i_quiet)
  with Cons show ?case by auto
qed

lemma extractMedia_p_quiet:
  assumes "noMedia h message"
  shows "extractMedia_p h message = None \<or> extractMedia_p h message = Some Null"
proof (cases "truthy message")
  case False
  then show ?thesis by (simp add: extractMedia_p_def)
next
  case True
  have a: "attachmentsLoop_p h (elems h (readp h message ''attachments'')) = None
           \<or> attachmentsLoop_p h (elems h (readp h message ''attachments'')) = Some None"
    using assms by (simp add: noMedia_def attachmentsOf_def attachmentsLoop_p_quiet)
  have e: "embedsLoop_p h (elems h (readp h message ''embeds'')) = None
           \<or> embedsLoop_p h (elems h (readp h message ''embeds'')) = Some None"
    using assms by (simp add: noMedia_def embedsOf_def embedsLoop_p_quiet)
  from True a e show ?thesis
    by (auto simp: extractMedia_p_def truthy_getp)
qed

lemma extractMedia_i_quiet:
  assumes "noMedia h message"
  shows "extractMedia_i h message = None \<or> extractMedia_i h message = Some []"
proof -
  have a: "attachmentsLoop_i h [] (elems h (readp h message ''attachments'')) = None
           \<or> attachmentsLoop_i h [] (elems h (readp h message ''attachments'')) = Some []"
    using assms by (simp add: noMedia_def attachmentsOf_def attachmentsLoop_i_quiet)
  have e: "embedsLoop_i h [] (elems h (readp h message ''embeds'')) = None
           \<or> embedsLoop_i h [] (elems h (readp h message ''embeds'')) = Some []"
    using assms by (simp add: noMedia_def embedsOf_def embedsLoop_i_quiet)
  from a e show ?thesis
    by (auto simp: extractMedia_i_def getp_opt_readp)
qed

lemma afterActions_quiet:
  assumes "noMedia h (hookMessage h args)"
  shows "afterActions h args ret = None \<or> afterActions h args ret = Some (h, ret)"
  using extractMedia_p_quiet[OF assms]
  by (auto simp: afterActions_message)

lemma afterMessageActions_quiet:
  assumes "noMedia h (arg0 args)"
  shows "afterMessageActions h args ret = None \<or> afterMessageActions h args ret = Some (h, ret)"
  using extractMedia_i_quiet[OF assms]
  by (auto simp: afterMessageActions_def)

subsection \<open>The handlers\<close>










subsection \<open>The lifecycle\<close>

lemma cleanupsLoop_result:
  "cleanupsLoop reverses fails fns w =
     (w\<lparr>installed := fold (\<lambda>fn ins. if reverses fn then removeAll fn ins else ins) fns (installed w),
        invoked := invoked w @ fns\<rparr>,
      Some ())"
  by (induction fns arbitrary: w) (auto simp: invokeHandle_def)

lemma onDisable_result:
  "onDisable reverses fails w =
     (w\<lparr>cleanups := [],
        installed := fold (\<lambda>fn ins. if reverses fn then removeAll fn ins else ins)
                       (cleanups w) (installed w),
        invoked := invoked w @ cleanups w\<rparr>,
      Some ())"
  by (simp add: onDisable_def cleanupsLoop_result)

lemma set_fold_removeAll:
  "set (fold (\<lambda>fn ins. if reverses fn then removeAll fn ins else ins) fns ins) =
     {x \<in> set ins. \<not> (reverses x \<and> x \<in> set fns)}"
  by (induction fns arbitrary: ins) auto

lemma patchAndCollect_consistent:
  "consistent reverses w \<Longrightarrow> consistent reverses (patchAndCollect target w)"
  by (auto simp: consistent_def patchAndCollect_def patcher_after_def)

lemma onEnable_consistent: "consistent reverses w \<Longrightarrow> consistent reverses (onEnable found w)"
  by (auto simp: consistent_def onEnable_def patcher_after_def)

lemma onEnable_p_consistent:
  "consistent reverses w \<Longrightarrow> consistent reverses (onEnable_p p ov em w)"
  by (simp add: onEnable_p_def patchAndCollect_consistent)

lemma onDisable_consistent:
  assumes "consistent reverses w"
  shows "consistent reverses (fst (onDisable reverses fails w))"
proof -
  from assms have i: "invoked w @ cleanups w = [0..<counter w]"
    and s: "set (installed w) = {fn \<in> set (invoked w). \<not> reverses fn} \<union> set (cleanups w)"
    by (simp_all add: consistent_def)
  have "set (fold (\<lambda>fn ins. if reverses fn then removeAll fn ins else ins)
               (cleanups w) (installed w))
        = {fn \<in> set (invoked w @ cleanups w). \<not> reverses fn}"
    unfolding set_fold_removeAll s by auto
  with i show ?thesis
    by (simp add: onDisable_result consistent_def)
qed

lemma lifecycle_consistent:
  "consistent reverses w \<Longrightarrow>
   snd (lifecycle reverses fails calls w) = Some ()
   \<and> consistent reverses (fst (lifecycle reverses fails calls w))"
proof (induction calls arbitrary: w)
  case Nil
  then show ?case by simp
next
  case (Cons c calls)
  show ?case
  proof (cases c)
    case (Enable found)
    with Cons show ?thesis by (simp add: onEnable_consistent)
  next
    case (Enable_p p ov em)
    with Cons show ?thesis by (simp add: onEnable_p_consistent)
  next
    case Disable
    have "consistent reverses (fst (onDisable reverses fails w))"
      using Cons.prems by (rule onDisable_consistent)
    with Cons.IH[of "fst (onDisable reverses fails w)"] Disable show ?thesis
      by (simp add: onDisable_result)
  qed
qed

lemma lifecycle_append:
  "lifecycle reverses fails (calls @ later) w =
     (case lifecycle reverses fails calls w of
        (w', None) \<Rightarrow> (w', None)
      | (w', Some u) \<Rightarrow> lifecycle reverses fails later w')"
proof (induction calls arbitrary: w)
  case Nil
  then show ?case by simp
next
  case (Cons c calls)
  then show ?case
    by (cases c) (simp_all add: onDisable_result)
qed

lemma initial_consistent: "consistent reverses initial"
  by (simp add: consistent_def initial_def)

subsection \<open>Evaluation on the example stores\<close>

lemmas js_simps =
  isArray_def elems_def lookup_def lor_def split0_def toLowerCase_def lowerChar_def
  getp_opt_def arg0_def push_def

lemmas read_simps =
  readp_def strOf_def stringOrAbsent_def attachmentsOf_def embedsOf_def
  conformsAttachment_def conformsEmbed_def conforms_def hookMessage_def

lemma example_p: "extractMedia_p (sheet exampleStore) exampleMessage = Some exampleDescriptor_p"
  by (simp add: sheet_def exampleStore_def exampleMessage_def exampleDescriptor_p_def
      extractMedia_p_def attachmentStep_p_def js_simps read_simps)

lemma example_i: "extractMedia_i (sheet exampleStore) exampleMessage = Some [exampleDescriptor_i]"
  by (simp add: sheet_def exampleStore_def exampleMessage_def exampleDescriptor_i_def
      extractMedia_i_def attachmentMedia_i_def js_simps read_simps)

lemma example_message:
  "hookMessage (sheet exampleStore) [exampleMessage] = exampleMessage"
  "arg0 [exampleMessage] = exampleMessage"
  by (simp_all add: sheet_def exampleStore_def exampleMessage_def js_simps read_simps)

lemma example_conforms: "conforms (sheet exampleStore) exampleMessage"
  by (simp add: sheet_def exampleStore_def exampleMessage_def js_simps read_simps)

lemma example_first:
  "spec_firstMedia (sheet exampleStore) exampleMessage = exampleDescriptor_p"
  "allMedia_i (sheet exampleStore) exampleMessage = [exampleDescriptor_i]"
  "firstMedia_i (sheet exampleStore) exampleMessage = exampleDescriptor_i"
  by (simp_all add: sheet_def exampleStore_def exampleMessage_def exampleDescriptor_p_def
      exampleDescriptor_i_def js_simps read_simps
      mimeType_def spec_kind_def kind_p_def kind_i_def ctString_p_def ctString_i_def
      spec_firstMedia_def attachmentPick_p_def descriptor_p_def spec_embedPick_def gifvDescriptor_p_def
      allMedia_i_def attachmentPicks_i_def embedPicks_i_def descriptor_i_def gifvDescriptor_i_def firstMedia_i_def embedPick_i_def List.map_filter_simps)

lemma example_targets:
  "optionsTarget_p (sheet exampleStore) (Ref 10) = Some (Ref 10)"
  "optionsTarget_i (sheet exampleStore) (Ref 10) = Some (Ref 10)"
  "optionsTarget_p (sheet exampleStore) (Ref 14) = Some (Ref 10)"
  "optionsTarget_p (sheet exampleStore) (Ref 15) = Some (Ref 10)"
  "optionsTarget_i (sheet exampleStore) (Ref 13) = Some (Ref 10)"
  "sheet exampleStore 10 = Array [Ref 11]"
  by (simp_all add: sheet_def exampleStore_def js_simps read_simps
      optionsTarget_p_def optionsTarget_i_def childTarget_def List.map_filter_simps)

section \<open>The claims\<close>

subsection \<open>C1: one favourite item, bound to the first media item\<close>

text \<open>
  C1, as stated, fails in two ways. In \<open>src/index.ts\<close> an embed that is not a gifv and
  has both an image and a video puts the image first in the list the item is bound to,
  where the stated precedence names the video (the first-match order of
  \<open>unnamed/part_000\<close> picks \<open>v.mp4\<close> for the same message). And a return value in which
  the hook finds no list gets no item at all, although the message has a qualifying
  attachment: \<open>unnamed/part_000\<close> does not look into \<open>items\<close>.
\<close>

theorem C1_list_version_puts_image_first:
  "afterMessageActions (sheet (embedStore ''rich'')) [Ref 0] (Ref 10) =
     Some ((sheet (embedStore ''rich''))
             (10 := Array [Ref 11,
                favouriteAction
                  [Obj [(''url'', Str ''i.png''), (''proxyUrl'', Str ''i.png''),
                        (''isVideo'', Bool False)],
                   Obj [(''url'', Str ''v.mp4''), (''proxyUrl'', Str ''v.mp4''),
                        (''isVideo'', Bool True)]]]),
           Ref 10)
   \<and> field (spec_firstMedia (sheet (embedStore ''rich'')) (Ref 0)) ''url'' = Str ''v.mp4''
   \<and> afterActions (sheet exampleStore) [exampleMessage] (Ref 13) =
       Some (sheet exampleStore, Ref 13)"
  by (simp add: sheet_def embedStore_def exampleStore_def exampleMessage_def
      afterMessageActions_def afterActions_def extractMedia_i_def extractMedia_p_def
      embedMedia_i_def attachmentStep_p_def js_simps read_simps field_def
      mimeType_def spec_kind_def kind_p_def kind_i_def ctString_p_def ctString_i_def
      spec_firstMedia_def attachmentPick_p_def descriptor_p_def spec_embedPick_def gifvDescriptor_p_def List.map_filter_simps)

text \<open>
  C1 (amended). For every message that conforms to the host's schema and has at least
  one qualifying attachment or embed, whenever the hook finds the action list in the
  builder's return value, it appends exactly one favourite item, at the end of that
  list. In \<open>unnamed/part_000\<close> the item is bound to the first qualifying media item in
  the stated precedence: the first qualifying attachment before any embed, and within an
  embed the gifv video, else the video, else the image. In \<open>src/index.ts\<close> the item is
  bound to the list of all media of the message; its first element, the one the handler
  uses, is the first qualifying attachment, else, for the first embed with media, its
  gifv video, else its image, else its video.
\<close>

theorem C1_one_item_for_first_media:
  "(conforms h (hookMessage h args) \<and> spec_firstMedia h (hookMessage h args) \<noteq> Null
      \<and> optionsTarget_p h ret = Some (Ref a) \<and> h a = Array xs \<longrightarrow>
      afterActions h args ret =
        Some (h(a := Array (xs @ [buildFavouriteAction (spec_firstMedia h (hookMessage h args))])),
              ret))
   \<and> (conforms h (arg0 args) \<and> allMedia_i h (arg0 args) \<noteq> []
      \<and> optionsTarget_i h ret = Some (Ref a) \<and> h a = Array xs \<longrightarrow>
      afterMessageActions h args ret =
        Some (h(a := Array (xs @ [favouriteAction (allMedia_i h (arg0 args))])), ret)
      \<and> hd (allMedia_i h (arg0 args)) = firstMedia_i h (arg0 args))"
proof (intro conjI impI)
  assume a: "conforms h (hookMessage h args) \<and> spec_firstMedia h (hookMessage h args) \<noteq> Null
      \<and> optionsTarget_p h ret = Some (Ref a) \<and> h a = Array xs"
  then have m: "extractMedia_p h (hookMessage h args)
                  = Some (spec_firstMedia h (hookMessage h args))"
    by (simp add: extractMedia_p_conforms)
  from a have t: "truthy (spec_firstMedia h (hookMessage h args))"
    by (simp add: spec_firstMedia_truthy)
  from afterActions_target[OF m t, of ret] a
  show "afterActions h args ret =
        Some (h(a := Array (xs @ [buildFavouriteAction (spec_firstMedia h (hookMessage h args))])),
              ret)"
    by (simp add: pushAt_def push_Array)
next
  assume a: "conforms h (arg0 args) \<and> allMedia_i h (arg0 args) \<noteq> []
      \<and> optionsTarget_i h ret = Some (Ref a) \<and> h a = Array xs"
  then have m: "extractMedia_i h (arg0 args) = Some (allMedia_i h (arg0 args))"
    by (simp add: extractMedia_i_conforms)
  from a have n: "allMedia_i h (arg0 args) \<noteq> []" by simp
  from afterMessageActions_target[OF m n, of ret] a
  show "afterMessageActions h args ret =
        Some (h(a := Array (xs @ [favouriteAction (allMedia_i h (arg0 args))])), ret)"
    by (simp add: pushAt_def push_Array)
next
  assume "conforms h (arg0 args) \<and> allMedia_i h (arg0 args) \<noteq> []
      \<and> optionsTarget_i h ret = Some (Ref a) \<and> h a = Array xs"
  then show "hd (allMedia_i h (arg0 args)) = firstMedia_i h (arg0 args)"
    by (simp add: hd_allMedia_i)
qed

text \<open>
  Witness for C1: the example message and the action list at address 10, which holds
  the host's item 11.
\<close>

theorem C1_witness:
  "conforms (sheet exampleStore) (hookMessage (sheet exampleStore) [exampleMessage])
   \<and> spec_firstMedia (sheet exampleStore) (hookMessage (sheet exampleStore) [exampleMessage])
       \<noteq> Null
   \<and> optionsTarget_p (sheet exampleStore) (Ref 10) = Some (Ref 10)
   \<and> optionsTarget_i (sheet exampleStore) (Ref 10) = Some (Ref 10)
   \<and> sheet exampleStore 10 = Array [Ref 11]
   \<and> allMedia_i (sheet exampleStore) (arg0 [exampleMessage]) \<noteq> []
   \<and> afterActions (sheet exampleStore) [exampleMessage] (Ref 10) =
       Some ((sheet exampleStore)(10 := Array [Ref 11, buildFavouriteAction exampleDescriptor_p]),
             Ref 10)
   \<and> afterMessageActions (sheet exampleStore) [exampleMessage] (Ref 10) =
       Some ((sheet exampleStore)(10 := Array [Ref 11, favouriteAction [exampleDescriptor_i]]),
             Ref 10)"
  using C1_one_item_for_first_media
          [of "sheet exampleStore" "[exampleMessage]" "Ref 10" 10 "[Ref 11]"]
  by (simp add: example_message example_conforms example_first example_targets
      exampleDescriptor_p_def)

subsection \<open>C2: the example of the specification\<close>

text \<open>
  C2, as stated, fails on \<open>src/index.ts\<close>: the list extractor returns one descriptor
  for the example message, but that descriptor has the three properties \<open>url\<close>,
  \<open>proxyUrl\<close> and \<open>isVideo\<close> only; it is not the five-property descriptor of the claim.
\<close>

theorem C2_list_extractor_has_no_size:
  "extractMedia_i exampleStore exampleMessage =
     Some [Obj [(''url'', Str ''a.png''), (''proxyUrl'', Str ''a.png''),
                (''isVideo'', Bool False)]]
   \<and> extractMedia_i exampleStore exampleMessage \<noteq>
     Some [Obj [(''url'', Str ''a.png''), (''proxyUrl'', Str ''a.png''),
                (''isVideo'', Bool False), (''width'', Num 100), (''height'', Num 50)]]"
  by (simp add: exampleStore_def exampleMessage_def extractMedia_i_def attachmentMedia_i_def
      js_simps read_simps)

text \<open>
  C2 (amended). On the example message the first-match extractor of
  \<open>unnamed/part_000\<close> returns the single descriptor with url \<open>a.png\<close>, proxy url
  \<open>a.png\<close> (the property is spelled \<open>proxyURL\<close> there), width 100, height 50 and
  \<open>isVideo\<close> false; the list extractor of \<open>src/index.ts\<close> returns a one-element list
  whose descriptor has url \<open>a.png\<close>, \<open>proxyUrl\<close> \<open>a.png\<close> and \<open>isVideo\<close> false, and no
  width or height.
\<close>

theorem C2_example_descriptor:
  "extractMedia_p exampleStore exampleMessage =
     Some (Obj [(''url'', Str ''a.png''), (''proxyURL'', Str ''a.png''),
                (''width'', Num 100), (''height'', Num 50), (''isVideo'', Bool False)])
   \<and> extractMedia_i exampleStore exampleMessage =
     Some [Obj [(''url'', Str ''a.png''), (''proxyUrl'', Str ''a.png''),
                (''isVideo'', Bool False)]]"
  by (simp add: exampleStore_def exampleMessage_def extractMedia_p_def attachmentStep_p_def
      extractMedia_i_def attachmentMedia_i_def js_simps read_simps)

subsection \<open>C3: a gifv embed with a video is a video\<close>

text \<open>
  C3, as stated, fails on \<open>src/index.ts\<close>: for a gifv embed with a video and an image,
  the list extractor produces the video descriptor and, after it, an image descriptor
  for the same embed.
\<close>

theorem C3_list_extractor_adds_image:
  "extractMedia_i (embedStore ''gifv'') (Ref 0) =
     Some [Obj [(''url'', Str ''v.mp4''), (''proxyUrl'', Str ''v.mp4''), (''isVideo'', Bool True)],
           Obj [(''url'', Str ''i.png''), (''proxyUrl'', Str ''i.png''), (''isVideo'', Bool False)]]"
  by (simp add: embedStore_def extractMedia_i_def embedMedia_i_def js_simps read_simps)

text \<open>
  C3 (amended). For every embed whose type is \<open>gifv\<close> and which has a video field, the
  first descriptor produced for it is a video descriptor (\<open>isVideo\<close> true). In
  \<open>unnamed/part_000\<close> it is the only one, also when the embed has an image field. In
  \<open>src/index.ts\<close> it is followed by an image descriptor exactly when the embed has an
  image field, and by nothing else.
\<close>

theorem C3_gifv_embed_is_video_first:
  assumes "readp h emb ''type'' = Str ''gifv''" and "truthy (readp h emb ''video'')"
  shows "embedStep_p h emb = Some (Some (gifvDescriptor_p h emb))
         \<and> field (gifvDescriptor_p h emb) ''isVideo'' = Bool True
         \<and> embedMedia_i h emb =
             Some (gifvDescriptor_i h emb
                   # (if truthy (readp h emb ''image'')
                      then [descriptor_i h (readp h emb ''image'') Image] else []))
         \<and> field (gifvDescriptor_i h emb) ''isVideo'' = Bool True"
proof -
  from assms(1) have "conformsEmbed emb"
    by (auto simp: conformsEmbed_def readp_def)
  then show ?thesis
    using assms
    by (simp add: embedStep_p_conforms embedMedia_i_conforms spec_embedPick_def embedPicks_i_def
        field_def gifvDescriptor_p_def gifvDescriptor_i_def lookup_def Let_def)
qed

text \<open>Witness for C3: the gifv embed with an image and a video.\<close>

theorem C3_witness:
  "readp (embedStore ''gifv'') (Ref 2) ''type'' = Str ''gifv''
   \<and> truthy (readp (embedStore ''gifv'') (Ref 2) ''video'')
   \<and> embedStep_p (embedStore ''gifv'') (Ref 2) =
       Some (Some (Obj [(''url'', Str ''v.mp4''), (''proxyURL'', Str ''v.mp4''),
                        (''width'', Num 0), (''height'', Num 0), (''isVideo'', Bool True)]))
   \<and> embedMedia_i (embedStore ''gifv'') (Ref 2) =
       Some [Obj [(''url'', Str ''v.mp4''), (''proxyUrl'', Str ''v.mp4''), (''isVideo'', Bool True)],
             Obj [(''url'', Str ''i.png''), (''proxyUrl'', Str ''i.png''), (''isVideo'', Bool False)]]"
proof -
  have a: "readp (embedStore ''gifv'') (Ref 2) ''type'' = Str ''gifv''"
    by (simp add: embedStore_def js_simps read_simps)
  have b: "truthy (readp (embedStore ''gifv'') (Ref 2) ''video'')"
    by (simp add: embedStore_def js_simps read_simps)
  show ?thesis
    using a b C3_gifv_embed_is_video_first[OF a b]
    by (simp add: embedStore_def js_simps read_simps gifvDescriptor_p_def gifvDescriptor_i_def
        descriptor_i_def)
qed

subsection \<open>C4: matching the content type\<close>

text \<open>
  C4, as stated, fails on \<open>unnamed/part_000\<close>: the content type
  \<open>IMAGE/PNG; charset=x\<close> does not qualify there, while \<open>image/png\<close> does.
\<close>

theorem C4_first_match_extractor_is_case_sensitive:
  "extractMedia_p (attachmentStore ''IMAGE/PNG; charset=x'') (Ref 0) = Some Null
   \<and> extractMedia_p (attachmentStore ''image/png'') (Ref 0) =
       Some (Obj [(''url'', Str ''a.png''), (''proxyURL'', Str ''a.png''),
                  (''width'', Num 0), (''height'', Num 0), (''isVideo'', Bool False)])"
  by (simp add: attachmentStore_def extractMedia_p_def attachmentStep_p_def js_simps read_simps)

text \<open>
  C4 (amended). In \<open>src/index.ts\<close>, whether an attachment qualifies as image or video
  depends only on its content type (\<open>content_type\<close>, or \<open>contentType\<close> when that is
  missing), compared without regard to case with the prefixes \<open>image/\<close> and \<open>video/\<close>
  of the MIME type, parameters after the semicolon ignored: \<open>IMAGE/PNG; charset=x\<close>
  qualifies as an image exactly as \<open>image/png\<close> does. In \<open>unnamed/part_000\<close> it depends
  only on \<open>content_type\<close>, whose part before the semicolon is compared with the two
  prefixes letter for letter.
\<close>

theorem C4_content_type_matching:
  "(conformsAttachment h att \<longrightarrow>
      attachmentMedia_i h att =
        Some (case spec_kind (ctString_i h att) of
                None \<Rightarrow> []
              | Some k \<Rightarrow> [descriptor_i h att k]))
   \<and> (conformsAttachment h att \<longrightarrow>
      attachmentStep_p h att =
        Some (map_option (descriptor_p h att) (kind_p (ctString_p h att))))
   \<and> spec_kind ''IMAGE/PNG; charset=x'' = Some Image
   \<and> spec_kind ''image/png'' = Some Image"
proof (intro conjI impI)
  assume "conformsAttachment h att"
  then show "attachmentMedia_i h att =
        Some (case spec_kind (ctString_i h att) of
                None \<Rightarrow> []
              | Some k \<Rightarrow> [descriptor_i h att k])"
    by (simp add: attachmentMedia_i_conforms attachmentPicks_i_def kind_i_spec_kind)
next
  assume "conformsAttachment h att"
  then show "attachmentStep_p h att =
        Some (map_option (descriptor_p h att) (kind_p (ctString_p h att)))"
    by (simp add: attachmentStep_p_conforms attachmentPick_p_def)
next
  show "spec_kind ''IMAGE/PNG; charset=x'' = Some Image"
    by code_simp
next
  show "spec_kind ''image/png'' = Some Image"
    by (simp add: spec_kind_def mimeType_def lowerChar_def)
qed

text \<open>
  Witness for C4: the attachment with content type \<open>IMAGE/PNG; charset=x\<close>, an image for
  \<open>src/index.ts\<close> and nothing for \<open>unnamed/part_000\<close>.
\<close>

theorem C4_witness:
  "conformsAttachment (attachmentStore ''IMAGE/PNG; charset=x'') (Ref 2)
   \<and> attachmentMedia_i (attachmentStore ''IMAGE/PNG; charset=x'') (Ref 2) =
       Some [Obj [(''url'', Str ''a.png''), (''proxyUrl'', Str ''a.png''), (''isVideo'', Bool False)]]
   \<and> attachmentStep_p (attachmentStore ''IMAGE/PNG; charset=x'') (Ref 2) = Some None"
proof -
  let ?S = "attachmentStore ''IMAGE/PNG; charset=x''"
  have c: "conformsAttachment ?S (Ref 2)"
    by (simp add: attachmentStore_def js_simps read_simps)
  have s: "ctString_i ?S (Ref 2) = ''IMAGE/PNG; charset=x''"
    and s': "ctString_p ?S (Ref 2) = ''IMAGE/PNG; charset=x''"
    by (simp_all add: attachmentStore_def js_simps read_simps ctString_p_def ctString_i_def)
  have k: "spec_kind ''IMAGE/PNG; charset=x'' = Some Image"
    and k': "kind_p ''IMAGE/PNG; charset=x'' = None"
    by code_simp+
  have d: "descriptor_i ?S (Ref 2) Image =
           Obj [(''url'', Str ''a.png''), (''proxyUrl'', Str ''a.png''), (''isVideo'', Bool False)]"
    by (simp add: attachmentStore_def descriptor_i_def js_simps read_simps)
  show ?thesis
    using c C4_content_type_matching[of ?S "Ref 2"]
    by (simp add: s s' k k' d)
qed

subsection \<open>C5: where the item is appended\<close>

text \<open>
  C5, as stated, fails: neither hook searches all of \<open>items\<close>, \<open>actions\<close> and
  \<open>options\<close>. With the example message, \<open>src/index.ts\<close> leaves a return value that
  holds the list as \<open>options\<close> untouched, and \<open>unnamed/part_000\<close> leaves one that
  holds it as \<open>items\<close> untouched.
\<close>

theorem C5_unsearched_fields:
  "isArray (sheet exampleStore) (readp (sheet exampleStore) (Ref 12) ''options'')
   \<and> afterMessageActions (sheet exampleStore) [exampleMessage] (Ref 12) =
       Some (sheet exampleStore, Ref 12)
   \<and> isArray (sheet exampleStore) (readp (sheet exampleStore) (Ref 13) ''items'')
   \<and> afterActions (sheet exampleStore) [exampleMessage] (Ref 13) =
       Some (sheet exampleStore, Ref 13)"
  by (simp add: sheet_def exampleStore_def exampleMessage_def
      afterMessageActions_def afterActions_def extractMedia_i_def extractMedia_p_def
      attachmentMedia_i_def attachmentStep_p_def js_simps read_simps)

text \<open>
  C5 (amended). For every return value of the patched builder on a message with media:
  if the return value is itself a list, the favourite item is appended to it. Otherwise
  \<open>src/index.ts\<close> appends to the return value's \<open>items\<close> if that is a list, else to its
  \<open>actions\<close> if that is a list; \<open>unnamed/part_000\<close> appends to the return value's
  \<open>props.options\<close> if that is a list, else to \<open>props.options\<close> of the first element of
  \<open>props.children\<close> that has such a list. If no such list exists, the return value is
  left untouched. (\<open>optionsTarget_i\<close> and \<open>optionsTarget_p\<close> are these searches;
  \<open>pushAt\<close> appends at the list found and changes nothing when there is none.)
\<close>

theorem C5_where_the_item_goes:
  "(extractMedia_p h (hookMessage h args) = Some media \<and> truthy media \<longrightarrow>
      afterActions h args ret =
        Some (pushAt h (optionsTarget_p h ret) (buildFavouriteAction media), ret))
   \<and> (extractMedia_i h (arg0 args) = Some ms \<and> ms \<noteq> [] \<longrightarrow>
      afterMessageActions h args ret =
        Some (pushAt h (optionsTarget_i h ret) (favouriteAction ms), ret))"
  using afterActions_target afterMessageActions_target by blast

text \<open>
  Witness for C5: the example message; \<open>unnamed/part_000\<close> on the return value 15,
  which holds the list under \<open>props.children\<close>, and \<open>src/index.ts\<close> on the return value
  13, which holds it as \<open>items\<close>.
\<close>

theorem C5_witness:
  "extractMedia_p (sheet exampleStore) (hookMessage (sheet exampleStore) [exampleMessage]) =
     Some exampleDescriptor_p
   \<and> truthy exampleDescriptor_p
   \<and> extractMedia_i (sheet exampleStore) (arg0 [exampleMessage]) = Some [exampleDescriptor_i]
   \<and> afterActions (sheet exampleStore) [exampleMessage] (Ref 15) =
       Some ((sheet exampleStore)(10 := Array [Ref 11, buildFavouriteAction exampleDescriptor_p]),
             Ref 15)
   \<and> afterMessageActions (sheet exampleStore) [exampleMessage] (Ref 13) =
       Some ((sheet exampleStore)(10 := Array [Ref 11, favouriteAction [exampleDescriptor_i]]),
             Ref 13)"
  using C5_where_the_item_goes
          [of "sheet exampleStore" "[exampleMessage]" exampleDescriptor_p "Ref 15"
              "[exampleDescriptor_i]"]
        C5_where_the_item_goes
          [of "sheet exampleStore" "[exampleMessage]" exampleDescriptor_p "Ref 13"
              "[exampleDescriptor_i]"]
  by (simp add: example_message example_p example_i example_targets pushAt_def push_Array
      exampleDescriptor_p_def)

subsection \<open>C6: disable runs every unpatch handle once\<close>

text \<open>
  C6. \<open>onDisable\<close> invokes every collected unpatch handle exactly once, in the order of
  collection and whether or not earlier handles throw, never throws itself, and leaves
  the handle list empty; a second \<open>onDisable\<close> right after it invokes nothing and does
  not throw. After any sequence of lifecycle calls that ends with a disable, the call has
  not thrown, the handle list is empty, every handle ever created has been invoked
  exactly once, and no patch is installed, provided the handles reverse their patches
  (the only patches that can remain are those of invoked handles that did not).
\<close>

theorem C6_disable_runs_every_handle_once:
  "onDisable reverses fails w =
     (w\<lparr>cleanups := [],
        installed := fold (\<lambda>fn ins. if reverses fn then removeAll fn ins else ins)
                       (cleanups w) (installed w),
        invoked := invoked w @ cleanups w\<rparr>,
      Some ())
   \<and> onDisable reverses fails (fst (onDisable reverses fails w)) =
       (fst (onDisable reverses fails w), Some ())
   \<and> snd (lifecycle reverses fails (calls @ [Disable]) initial) = Some ()
   \<and> cleanups (fst (lifecycle reverses fails (calls @ [Disable]) initial)) = []
   \<and> invoked (fst (lifecycle reverses fails (calls @ [Disable]) initial)) =
       [0..<counter (fst (lifecycle reverses fails (calls @ [Disable]) initial))]
   \<and> set (installed (fst (lifecycle reverses fails (calls @ [Disable]) initial))) =
       {fn \<in> set (invoked (fst (lifecycle reverses fails (calls @ [Disable]) initial))).
          \<not> reverses fn}
   \<and> ((\<forall>fn. reverses fn) \<longrightarrow>
        installed (fst (lifecycle reverses fails (calls @ [Disable]) initial)) = [])"
proof -
  let ?end = "fst (lifecycle reverses fails (calls @ [Disable]) initial)"
  obtain w' where l: "lifecycle reverses fails calls initial = (w', Some ())"
    using lifecycle_consistent[OF initial_consistent, of reverses fails calls]
    by (cases "lifecycle reverses fails calls initial") auto
  have d: "lifecycle reverses fails (calls @ [Disable]) initial = onDisable reverses fails w'"
    by (simp add: lifecycle_append l onDisable_result)
  have c: "consistent reverses ?end"
    using lifecycle_consistent[OF initial_consistent, of reverses fails "calls @ [Disable]"]
    by simp
  have e: "cleanups ?end = []"
    by (simp add: d onDisable_result)
  from c e have i: "invoked ?end = [0..<counter ?end]"
    and s: "set (installed ?end) = {fn \<in> set (invoked ?end). \<not> reverses fn}"
    by (simp_all add: consistent_def)
  have "onDisable reverses fails (fst (onDisable reverses fails w)) =
          (fst (onDisable reverses fails w), Some ())"
    by (simp add: onDisable_result)
  moreover have "snd (lifecycle reverses fails (calls @ [Disable]) initial) = Some ()"
    by (simp add: d onDisable_result)
  moreover from s have "(\<forall>fn. reverses fn) \<longrightarrow> installed ?end = []"
    by auto
  ultimately show ?thesis
    using e i s by (simp add: onDisable_result)
qed

text \<open>
  Witness for C6: two enables (the second of the overlay version, with both targets
  found) and a disable; the handles reverse their patches, and handle 1 throws.
\<close>

theorem C6_witness:
  "(\<forall>fn. (\<lambda>_. True) fn)
   \<and> lifecycle (\<lambda>_. True) (\<lambda>fn. fn = 1) [Enable True, Enable_p True True True, Disable] initial =
       (\<lparr>cleanups = [], installed = [], invoked = [0, 1, 2], counter = 3\<rparr>, Some ())"
proof -
  have "lifecycle (\<lambda>_. True) (\<lambda>fn. fn = 1) ([Enable True, Enable_p True True True] @ [Disable]) initial =
       (\<lparr>cleanups = [], installed = [], invoked = [0, 1, 2], counter = 3\<rparr>, Some ())"
    using C6_disable_runs_every_handle_once
            [of "\<lambda>_. True" "\<lambda>fn. fn = 1" initial "[Enable True, Enable_p True True True]"]
    by (simp add: initial_def onEnable_def onEnable_p_def patchAndCollect_def patcher_after_def
        onDisable_def invokeHandle_def)
  then show ?thesis by simp
qed

subsection \<open>C7: the handler when the favourites call fails\<close>




subsection \<open>C8: a message without media leaves the return value alone\<close>

text \<open>
  C8. For every message with no image or video attachment and no embed with an image or
  a video, a hook that returns, returns the original return value and leaves the store
  as it was: no item is appended and nothing is modified. The only other outcome is an
  exception of the extractor, on a message outside the host's schema; on every message
  that conforms to the schema the hook does return.
\<close>

theorem C8_no_media_unchanged:
  "(noMedia h (hookMessage h args) \<longrightarrow>
      afterActions h args ret = None \<or> afterActions h args ret = Some (h, ret))
   \<and> (noMedia h (arg0 args) \<longrightarrow>
      afterMessageActions h args ret = None \<or> afterMessageActions h args ret = Some (h, ret))
   \<and> (conforms h (hookMessage h args) \<and> noMedia h (hookMessage h args) \<longrightarrow>
      afterActions h args ret = Some (h, ret))
   \<and> (conforms h (arg0 args) \<and> noMedia h (arg0 args) \<longrightarrow>
      afterMessageActions h args ret = Some (h, ret))"
proof (intro conjI impI)
  assume "noMedia h (hookMessage h args)"
  then show "afterActions h args ret = None \<or> afterActions h args ret = Some (h, ret)"
    by (rule afterActions_quiet)
next
  assume "noMedia h (arg0 args)"
  then show "afterMessageActions h args ret = None
             \<or> afterMessageActions h args ret = Some (h, ret)"
    by (rule afterMessageActions_quiet)
next
  assume a: "conforms h (hookMessage h args) \<and> noMedia h (hookMessage h args)"
  then have "extractMedia_p h (hookMessage h args) = Some Null"
    by (simp add: extractMedia_p_conforms noMedia_first)
  then show "afterActions h args ret = Some (h, ret)"
    by (rule afterActions_none) simp
next
  assume a: "conforms h (arg0 args) \<and> noMedia h (arg0 args)"
  then have "extractMedia_i h (arg0 args) = Some []"
    by (simp add: extractMedia_i_conforms noMedia_all)
  then show "afterMessageActions h args ret = Some (h, ret)"
    by (rule afterMessageActions_none)
qed

text \<open>Witness for C8: a message whose only attachment is of type \<open>text/plain\<close>.\<close>

theorem C8_witness:
  "conforms (sheet (attachmentStore ''text/plain''))
     (hookMessage (sheet (attachmentStore ''text/plain'')) [Ref 0])
   \<and> noMedia (sheet (attachmentStore ''text/plain''))
       (hookMessage (sheet (attachmentStore ''text/plain'')) [Ref 0])
   \<and> conforms (sheet (attachmentStore ''text/plain'')) (arg0 [Ref 0])
   \<and> noMedia (sheet (attachmentStore ''text/plain'')) (arg0 [Ref 0])
   \<and> afterActions (sheet (attachmentStore ''text/plain'')) [Ref 0] (Ref 10) =
       Some (sheet (attachmentStore ''text/plain''), Ref 10)
   \<and> afterMessageActions (sheet (attachmentStore ''text/plain'')) [Ref 0] (Ref 10) =
       Some (sheet (attachmentStore ''text/plain''), Ref 10)"
proof -
  let ?S = "sheet (attachmentStore ''text/plain'')"
  have m: "hookMessage ?S [Ref 0] = Ref 0" "arg0 [Ref 0] = Ref 0"
    by (simp_all add: sheet_def attachmentStore_def js_simps read_simps)
  have c: "conforms ?S (Ref 0)"
    by (simp add: sheet_def attachmentStore_def js_simps read_simps)
  have n: "noMedia ?S (Ref 0)"
    by (simp add: sheet_def attachmentStore_def js_simps read_simps noMedia_def
        mimeType_def spec_kind_def kind_p_def kind_i_def ctString_p_def ctString_i_def)
  show ?thesis
    using C8_no_media_unchanged[of ?S "[Ref 0]" "Ref 10"] c n
    by (simp add: m)
qed

subsection \<open>C9: partial messages\<close>

text \<open>
  C9, as stated, fails in two ways. A qualifying attachment without url gives a
  descriptor whose url and proxy url are \<open>undefined\<close>, not the empty string. And a
  message whose attachment list holds \<open>null\<close> makes both extractors throw.
\<close>

theorem C9_undefined_url_and_throw:
  "extractMedia_p noUrlStore (Ref 0) =
     Some (Obj [(''url'', Undefined), (''proxyURL'', Undefined),
                (''width'', Num 0), (''height'', Num 0), (''isVideo'', Bool False)])
   \<and> extractMedia_i noUrlStore (Ref 0) =
     Some [Obj [(''url'', Undefined), (''proxyUrl'', Undefined), (''isVideo'', Bool False)]]
   \<and> extractMedia_p nullAttachmentStore (Ref 0) = None
   \<and> extractMedia_i nullAttachmentStore (Ref 0) = None"
  by (simp add: noUrlStore_def nullAttachmentStore_def extractMedia_p_def extractMedia_i_def
      attachmentStep_p_def attachmentMedia_i_def js_simps read_simps)

text \<open>
  C9 (amended). Neither extractor throws on an absent or null message, nor on any
  message that conforms to the host's schema: its attachment and embed lists may be
  missing, and its attachments and embeds may lack any of their fields. On such a
  message the extractors return the media in their order of precedence, each descriptor
  built by \<open>descriptor_p\<close>, \<open>gifvDescriptor_p\<close>, \<open>descriptor_i\<close> or
  \<open>gifvDescriptor_i\<close>: the url and the proxy url are copied as they are found (a
  missing proxy url is replaced by the url), and are \<open>undefined\<close> when the item has
  none. In every descriptor of \<open>unnamed/part_000\<close>, on any message, width and height
  are the item's own or zero and \<open>isVideo\<close> is a boolean; in every descriptor of
  \<open>src/index.ts\<close>, \<open>isVideo\<close> is a boolean.
\<close>

theorem C9_tolerates_partial_messages:
  "(conforms h message \<longrightarrow>
      extractMedia_p h message = Some (spec_firstMedia h message)
      \<and> extractMedia_i h message = Some (allMedia_i h message))
   \<and> extractMedia_p h Undefined = Some Null \<and> extractMedia_p h Null = Some Null
   \<and> extractMedia_i h Undefined = Some [] \<and> extractMedia_i h Null = Some []
   \<and> (extractMedia_p h message = Some d \<and> d \<noteq> Null \<longrightarrow> defaulted d)
   \<and> (extractMedia_i h message = Some ds \<longrightarrow> list_all booleanFlag ds)"
proof (intro conjI impI)
  assume "conforms h message"
  then show "extractMedia_p h message = Some (spec_firstMedia h message)"
    and "extractMedia_i h message = Some (allMedia_i h message)"
    by (simp_all add: extractMedia_p_conforms extractMedia_i_conforms)
next
  show "extractMedia_p h Undefined = Some Null" and "extractMedia_p h Null = Some Null"
    by (simp_all add: extractMedia_p_def)
next
  show "extractMedia_i h Undefined = Some []" and "extractMedia_i h Null = Some []"
    by (simp_all add: extractMedia_i_def getp_opt_def isArray_def)
next
  assume "extractMedia_p h message = Some d \<and> d \<noteq> Null"
  then show "defaulted d"
    using extractMedia_p_defaulted by blast
next
  assume "extractMedia_i h message = Some ds"
  then show "list_all booleanFlag ds"
    by (rule extractMedia_i_flags)
qed

text \<open>
  Witness for C9: a message with an attachment that has no content type and a gifv
  embed whose video has neither url nor size.
\<close>

theorem C9_witness:
  "conforms partialStore (Ref 0)
   \<and> extractMedia_p partialStore (Ref 0) = Some (spec_firstMedia partialStore (Ref 0))
   \<and> extractMedia_p partialStore (Ref 0) =
       Some (Obj [(''url'', Undefined), (''proxyURL'', Undefined),
                  (''width'', Num 0), (''height'', Num 0), (''isVideo'', Bool True)])
   \<and> extractMedia_i partialStore (Ref 0) =
       Some [Obj [(''url'', Undefined), (''proxyUrl'', Undefined), (''isVideo'', Bool True)]]
   \<and> defaulted (Obj [(''url'', Undefined), (''proxyURL'', Undefined),
                  (''width'', Num 0), (''height'', Num 0), (''isVideo'', Bool True)])"
proof -
  have c: "conforms partialStore (Ref 0)"
    by (simp add: partialStore_def js_simps read_simps)
  have p: "extractMedia_p partialStore (Ref 0) =
       Some (Obj [(''url'', Undefined), (''proxyURL'', Undefined),
                  (''width'', Num 0), (''height'', Num 0), (''isVideo'', Bool True)])"
    by (simp add: partialStore_def extractMedia_p_def attachmentStep_p_def embedStep_p_def
        js_simps read_simps)
  have i: "extractMedia_i partialStore (Ref 0) =
       Some [Obj [(''url'', Undefined), (''proxyUrl'', Undefined), (''isVideo'', Bool True)]]"
    by (simp add: partialStore_def extractMedia_i_def attachmentMedia_i_def embedMedia_i_def
        js_simps read_simps)
  from C9_tolerates_partial_messages[of partialStore "Ref 0"
      "Obj [(''url'', Undefined), (''proxyURL'', Undefined),
            (''width'', Num 0), (''height'', Num 0), (''isVideo'', Bool True)]"
      "[Obj [(''url'', Undefined), (''proxyUrl'', Undefined), (''isVideo'', Bool True)]]"]
  have "conforms partialStore (Ref 0) \<longrightarrow>
          extractMedia_p partialStore (Ref 0) = Some (spec_firstMedia partialStore (Ref 0))"
    and "extractMedia_p partialStore (Ref 0) =
           Some (Obj [(''url'', Undefined), (''proxyURL'', Undefined),
                      (''width'', Num 0), (''height'', Num 0), (''isVideo'', Bool True)])
         \<and> Obj [(''url'', Undefined), (''proxyURL'', Undefined),
                 (''width'', Num 0), (''height'', Num 0), (''isVideo'', Bool True)] \<noteq> Null
         \<longrightarrow> defaulted (Obj [(''url'', Undefined), (''proxyURL'', Undefined),
                  (''width'', Num 0), (''height'', Num 0), (''isVideo'', Bool True)])"
    by blast+
  with c p i show ?thesis by simp
qed

subsection \<open>C10: the item is appended in place\<close>

text \<open>
  C10. Whenever a hook returns, the value it returns is the original return value
  itself (the same reference), and either the store is the one before, or the hook has
  appended: then the list that its search finds in the return value (\<open>optionsTarget_p\<close>
  for \<open>unnamed/part_000\<close>, \<open>optionsTarget_i\<close> for \<open>src/index.ts\<close>; the return value
  itself when that is a list) is the one array that differs from the store before, its
  earlier elements are all there in their order, and the favourite item built from the
  extracted media is its last element. Conversely, when the extractor yields media and
  the search finds a list in the return value, the hook does return and does append
  there, so that the store is no longer the one before.
\<close>

theorem C10_appends_in_place:
  "(afterActions h args ret = Some (h', r') \<longrightarrow>
      r' = ret \<and>
      (h' = h \<or>
       (\<exists>a xs media.
          optionsTarget_p h ret = Some (Ref a) \<and> h a = Array xs
          \<and> extractMedia_p h (hookMessage h args) = Some media \<and> truthy media
          \<and> h' = h(a := Array (xs @ [buildFavouriteAction media])))))
   \<and> (afterMessageActions h args result = Some (k', s') \<longrightarrow>
      s' = result \<and>
      (k' = h \<or>
       (\<exists>a xs ms.
          optionsTarget_i h result = Some (Ref a) \<and> h a = Array xs
          \<and> extractMedia_i h (arg0 args) = Some ms \<and> ms \<noteq> []
          \<and> k' = h(a := Array (xs @ [favouriteAction ms])))))
   \<and> (extractMedia_p h (hookMessage h args) = Some media \<and> truthy media
      \<and> optionsTarget_p h ret = Some (Ref a) \<and> h a = Array xs \<longrightarrow>
      afterActions h args ret =
        Some (h(a := Array (xs @ [buildFavouriteAction media])), ret)
      \<and> h(a := Array (xs @ [buildFavouriteAction media])) \<noteq> h)
   \<and> (extractMedia_i h (arg0 args) = Some ms \<and> ms \<noteq> []
      \<and> optionsTarget_i h result = Some (Ref b) \<and> h b = Array ys \<longrightarrow>
      afterMessageActions h args result =
        Some (h(b := Array (ys @ [favouriteAction ms])), result)
      \<and> h(b := Array (ys @ [favouriteAction ms])) \<noteq> h)
   \<and> (isArray h lst \<longrightarrow> optionsTarget_p h lst = Some lst \<and> optionsTarget_i h lst = Some lst)"
proof (intro conjI impI)
  assume r: "afterActions h args ret = Some (h', r')"
  then obtain media where m: "extractMedia_p h (hookMessage h args) = Some media"
    by (auto simp: afterActions_message split: bind_splits)
  show "r' = ret"
  proof (cases "truthy media")
    case False
    with m r show ?thesis by (simp add: afterActions_none)
  next
    case True
    from afterActions_target[OF m True, of ret] r show ?thesis by simp
  qed
  show "h' = h \<or>
       (\<exists>a xs media.
          optionsTarget_p h ret = Some (Ref a) \<and> h a = Array xs
          \<and> extractMedia_p h (hookMessage h args) = Some media \<and> truthy media
          \<and> h' = h(a := Array (xs @ [buildFavouriteAction media])))"
  proof (cases "truthy media")
    case False
    with m r show ?thesis by (simp add: afterActions_none)
  next
    case True
    from afterActions_target[OF m True, of ret] r
    have s: "h' = pushAt h (optionsTarget_p h ret) (buildFavouriteAction media)"
      by simp
    show ?thesis
    proof (cases "optionsTarget_p h ret")
      case None
      with s show ?thesis by (simp add: pushAt_def)
    next
      case (Some t)
      then obtain a xs where t: "t = Ref a" and a: "h a = Array xs"
        using optionsTarget_p_isArray isArray_cases by blast
      from s Some t a have "h' = h(a := Array (xs @ [buildFavouriteAction media]))"
        by (simp add: pushAt_def push_Array)
      with Some t a m True show ?thesis by blast
    qed
  qed
next
  assume r: "afterMessageActions h args result = Some (k', s')"
  then obtain ms where m: "extractMedia_i h (arg0 args) = Some ms"
    by (auto simp: afterMessageActions_def split: bind_splits)
  show "s' = result"
  proof (cases "ms = []")
    case True
    with m r show ?thesis by (simp add: afterMessageActions_none)
  next
    case False
    from afterMessageActions_target[OF m False, of result] r show ?thesis by simp
  qed
  show "k' = h \<or>
       (\<exists>a xs ms.
          optionsTarget_i h result = Some (Ref a) \<and> h a = Array xs
          \<and> extractMedia_i h (arg0 args) = Some ms \<and> ms \<noteq> []
          \<and> k' = h(a := Array (xs @ [favouriteAction ms])))"
  proof (cases "ms = []")
    case True
    with m r show ?thesis by (simp add: afterMessageActions_none)
  next
    case False
    from afterMessageActions_target[OF m False, of result] r
    have s: "k' = pushAt h (optionsTarget_i h result) (favouriteAction ms)"
      by simp
    show ?thesis
    proof (cases "optionsTarget_i h result")
      case None
      with s show ?thesis by (simp add: pushAt_def)
    next
      case (Some t)
      then obtain a xs where t: "t = Ref a" and a: "h a = Array xs"
        using optionsTarget_i_isArray isArray_cases by blast
      from s Some t a have "k' = h(a := Array (xs @ [favouriteAction ms]))"
        by (simp add: pushAt_def push_Array)
      with Some t a m False show ?thesis by blast
    qed
  qed
next
  assume a: "extractMedia_p h (hookMessage h args) = Some media \<and> truthy media
      \<and> optionsTarget_p h ret = Some (Ref a) \<and> h a = Array xs"
  then have m: "extractMedia_p h (hookMessage h args) = Some media" and t: "truthy media"
    by simp_all
  from afterActions_target[OF m t, of ret] a
  show "afterActions h args ret =
        Some (h(a := Array (xs @ [buildFavouriteAction media])), ret)"
    by (simp add: pushAt_def push_Array)
next
  assume a: "extractMedia_p h (hookMessage h args) = Some media \<and> truthy media
      \<and> optionsTarget_p h ret = Some (Ref a) \<and> h a = Array xs"
  then have "(h(a := Array (xs @ [buildFavouriteAction media]))) a \<noteq> h a"
    by simp
  then show "h(a := Array (xs @ [buildFavouriteAction media])) \<noteq> h"
    by metis
next
  assume a: "extractMedia_i h (arg0 args) = Some ms \<and> ms \<noteq> []
      \<and> optionsTarget_i h result = Some (Ref b) \<and> h b = Array ys"
  then have m: "extractMedia_i h (arg0 args) = Some ms" and n: "ms \<noteq> []"
    by simp_all
  from afterMessageActions_target[OF m n, of result] a
  show "afterMessageActions h args result =
        Some (h(b := Array (ys @ [favouriteAction ms])), result)"
    by (simp add: pushAt_def push_Array)
next
  assume a: "extractMedia_i h (arg0 args) = Some ms \<and> ms \<noteq> []
      \<and> optionsTarget_i h result = Some (Ref b) \<and> h b = Array ys"
  then have "(h(b := Array (ys @ [favouriteAction ms]))) b \<noteq> h b"
    by simp
  then show "h(b := Array (ys @ [favouriteAction ms])) \<noteq> h"
    by metis
next
  assume "isArray h lst"
  then show "optionsTarget_p h lst = Some lst" by (simp add: optionsTarget_p_def)
next
  assume "isArray h lst"
  then show "optionsTarget_i h lst = Some lst" by (simp add: optionsTarget_i_def)
qed

text \<open>
  Witness for C10: the example message with, for \<open>unnamed/part_000\<close>, the return value
  14, which holds the action list 10 as \<open>props.options\<close>, and, for \<open>src/index.ts\<close>, the
  return value 13, which holds it as \<open>items\<close>; the list holds the host's item 11.
\<close>

theorem C10_witness:
  "extractMedia_p (sheet exampleStore) (hookMessage (sheet exampleStore) [exampleMessage])
     = Some exampleDescriptor_p
   \<and> truthy exampleDescriptor_p
   \<and> optionsTarget_p (sheet exampleStore) (Ref 14) = Some (Ref 10)
   \<and> extractMedia_i (sheet exampleStore) (arg0 [exampleMessage]) = Some [exampleDescriptor_i]
   \<and> optionsTarget_i (sheet exampleStore) (Ref 13) = Some (Ref 10)
   \<and> sheet exampleStore 10 = Array [Ref 11]
   \<and> afterActions (sheet exampleStore) [exampleMessage] (Ref 14) =
       Some ((sheet exampleStore)(10 := Array [Ref 11, buildFavouriteAction exampleDescriptor_p]),
             Ref 14)
   \<and> afterMessageActions (sheet exampleStore) [exampleMessage] (Ref 13) =
       Some ((sheet exampleStore)(10 := Array [Ref 11, favouriteAction [exampleDescriptor_i]]),
             Ref 13)
   \<and> (sheet exampleStore)(10 := Array [Ref 11, buildFavouriteAction exampleDescriptor_p])
       \<noteq> sheet exampleStore
   \<and> (sheet exampleStore)(10 := Array [Ref 11, favouriteAction [exampleDescriptor_i]])
       \<noteq> sheet exampleStore
   \<and> isArray (sheet exampleStore) (Ref 10)
   \<and> optionsTarget_p (sheet exampleStore) (Ref 10) = Some (Ref 10)
   \<and> optionsTarget_i (sheet exampleStore) (Ref 10) = Some (Ref 10)
   \<and> (\<exists>a xs media.
         optionsTarget_p (sheet exampleStore) (Ref 14) = Some (Ref a)
         \<and> sheet exampleStore a = Array xs
         \<and> extractMedia_p (sheet exampleStore) (hookMessage (sheet exampleStore) [exampleMessage])
             = Some media
         \<and> truthy media
         \<and> (sheet exampleStore)(10 := Array [Ref 11, buildFavouriteAction exampleDescriptor_p])
             = (sheet exampleStore)(a := Array (xs @ [buildFavouriteAction media])))
   \<and> (\<exists>a xs ms.
         optionsTarget_i (sheet exampleStore) (Ref 13) = Some (Ref a)
         \<and> sheet exampleStore a = Array xs
         \<and> extractMedia_i (sheet exampleStore) (arg0 [exampleMessage]) = Some ms
         \<and> ms \<noteq> []
         \<and> (sheet exampleStore)(10 := Array [Ref 11, favouriteAction [exampleDescriptor_i]])
             = (sheet exampleStore)(a := Array (xs @ [favouriteAction ms])))"
proof -
  let ?S = "sheet exampleStore"
  let ?P = "?S(10 := Array [Ref 11, buildFavouriteAction exampleDescriptor_p])"
  let ?I = "?S(10 := Array [Ref 11, favouriteAction [exampleDescriptor_i]])"
  note c = C10_appends_in_place [where h = ?S and args = "[exampleMessage]"
        and ret = "Ref 14" and result = "Ref 13" and a = 10 and b = 10
        and xs = "[Ref 11]" and ys = "[Ref 11]"
        and media = exampleDescriptor_p and ms = "[exampleDescriptor_i]"
        and h' = ?P and r' = "Ref 14" and k' = ?I and s' = "Ref 13"
        and lst = "Ref 10"]
  have e: "extractMedia_p ?S (hookMessage ?S [exampleMessage]) = Some exampleDescriptor_p"
    "truthy exampleDescriptor_p"
    "optionsTarget_p ?S (Ref 14) = Some (Ref 10)"
    "extractMedia_i ?S (arg0 [exampleMessage]) = Some [exampleDescriptor_i]"
    "optionsTarget_i ?S (Ref 13) = Some (Ref 10)"
    "?S 10 = Array [Ref 11]"
    by (simp_all add: example_message example_p example_i example_targets
        exampleDescriptor_p_def js_simps)
  from c e have f: "afterActions ?S [exampleMessage] (Ref 14) = Some (?P, Ref 14)"
    "afterMessageActions ?S [exampleMessage] (Ref 13) = Some (?I, Ref 13)"
    "?P \<noteq> ?S" "?I \<noteq> ?S"
    by simp_all
  from c f have g: "\<exists>a xs media.
         optionsTarget_p ?S (Ref 14) = Some (Ref a) \<and> ?S a = Array xs
         \<and> extractMedia_p ?S (hookMessage ?S [exampleMessage]) = Some media
         \<and> truthy media
         \<and> ?P = ?S(a := Array (xs @ [buildFavouriteAction media]))"
    "\<exists>a xs ms.
         optionsTarget_i ?S (Ref 13) = Some (Ref a) \<and> ?S a = Array xs
         \<and> extractMedia_i ?S (arg0 [exampleMessage]) = Some ms \<and> ms \<noteq> []
         \<and> ?I = ?S(a := Array (xs @ [favouriteAction ms]))"
    by simp_all
  have l: "isArray ?S (Ref 10)"
    by (simp add: isArray_def example_targets)
  with c have t: "optionsTarget_p ?S (Ref 10) = Some (Ref 10)"
    "optionsTarget_i ?S (Ref 10) = Some (Ref 10)"
    by simp_all
  from e f g l t show ?thesis by simp
qed

end
